theory Spec2Isabelle
  imports Main "HOL-Library.Word" "HOL-Library.Sublist"
begin

section \<open>JavaScript strings\<close>

text \<open>
  A JavaScript string is a sequence of UTF-16 code units. The string methods the
  components call (\<^verbatim>\<open>startsWith\<close>, \<^verbatim>\<open>replace\<close> with a string
  pattern, \<^verbatim>\<open>trim\<close>) work on code units, so a string is a list of 16-bit words.
  \<open>ascii\<close> writes an ASCII literal of the source as code units.
\<close>

type_synonym js_string = "16 word list"

definition ascii :: "string \<Rightarrow> js_string" where
  "ascii s = map of_char s"

text \<open>\<^verbatim>\<open>s.startsWith(p)\<close>: \<open>p\<close> is a prefix of \<open>s\<close>.\<close>

fun startsWith :: "js_string \<Rightarrow> js_string \<Rightarrow> bool" where
  "startsWith s [] = True"
| "startsWith [] (p # ps) = False"
| "startsWith (c # cs) (p # ps) = (c = p \<and> startsWith cs ps)"

text \<open>
  \<^verbatim>\<open>s.replace(p, r)\<close> with a string pattern replaces the first occurrence of
  \<open>p\<close> in \<open>s\<close>, wherever it stands, and leaves \<open>s\<close> alone when there is none. (The
  source only passes the replacement \<^verbatim>\<open>''\<close>, which has no \<^verbatim>\<open>$\<close> pattern.)
\<close>

fun replace :: "js_string \<Rightarrow> js_string \<Rightarrow> js_string \<Rightarrow> js_string" where
  "replace [] p r = (if p = [] then r else [])"
| "replace (c # cs) p r =
     (if startsWith (c # cs) p then r @ drop (length p) (c # cs)
      else c # replace cs p r)"

text \<open>
  \<^verbatim>\<open>s.trim()\<close> removes the white space and line terminators of ECMAScript from
  both ends.
\<close>

definition isWhiteSpace :: "16 word \<Rightarrow> bool" where
  "isWhiteSpace c \<longleftrightarrow>
     c \<in> {0x9, 0xA, 0xB, 0xC, 0xD, 0x20, 0xA0, 0x1680, 0x2000, 0x2001, 0x2002, 0x2003,
          0x2004, 0x2005, 0x2006, 0x2007, 0x2008, 0x2009, 0x200A, 0x2028, 0x2029,
          0x202F, 0x205F, 0x3000, 0xFEFF}"

definition trim :: "js_string \<Rightarrow> js_string" where
  "trim s = rev (dropWhile isWhiteSpace (rev (dropWhile isWhiteSpace s)))"

text \<open>
  Truthiness of a value that is \<^verbatim>\<open>null\<close>/\<^verbatim>\<open>undefined\<close> (\<open>None\<close>) or a
  string: the empty string is falsy.
\<close>

definition truthy :: "js_string option \<Rightarrow> bool" where
  "truthy v = (case v of None \<Rightarrow> False | Some s \<Rightarrow> s \<noteq> [])"

section \<open>Data model\<close>

text \<open>A log entry as the logs endpoint returns it: \<^verbatim>\<open>{level, message}\<close>.\<close>

record log_entry =
  level :: "js_string option"
  message :: js_string

text \<open>
  A chat message object of \<^verbatim>\<open>ChatArea.jsx\<close>. The fields \<^verbatim>\<open>isStepMessage\<close>,
  \<^verbatim>\<open>isQuestion\<close> and \<^verbatim>\<open>isResponse\<close> are either \<^verbatim>\<open>true\<close> or left out
  of the object literal; they are only ever tested for truth, so a missing flag is
  \<open>False\<close>. The field \<^verbatim>\<open>step\<close> is left out (\<open>None\<close>), \<^verbatim>\<open>null\<close>
  (\<open>Some None\<close>) or the text of a step marker.
\<close>

datatype sender = Bot | User

record display_message =
  content :: js_string
  sender :: sender
  timestamp :: js_string
  step :: "js_string option option"
  isStepMessage :: bool
  isQuestion :: bool
  isResponse :: bool

text \<open>
  Every message object is stamped with \<^verbatim>\<open>new Date().toISOString()\<close>. The wall
  clock is an input of the model: an operation is given the readings of its own calls,
  \<open>clk k\<close> for the \<open>k\<close>-th call it makes (counted from 0).
\<close>

type_synonym clock = "nat \<Rightarrow> js_string"

text \<open>\<^verbatim>\<open>{content: c, sender: 'bot', timestamp: t}\<close>\<close>

definition botMessage :: "js_string \<Rightarrow> js_string \<Rightarrow> display_message" where
  "botMessage c t =
     \<lparr>content = c, sender = Bot, timestamp = t, step = None,
      isStepMessage = False, isQuestion = False, isResponse = False\<rparr>"

section \<open>The log-processing effect of ChatArea (the message reconstructor)\<close>

text \<open>
  \<^verbatim>\<open>shouldShowLog\<close>: the three control prefixes. The first one is the six CJK
  characters of the source literal, written as code units.
\<close>

definition taskStartPrefix :: js_string where
  "taskStartPrefix = [0x5F00, 0x59CB, 0x5904, 0x7406, 0x4EFB, 0x52A1]"

definition shouldShowLog :: "js_string \<Rightarrow> bool" where
  "shouldShowLog m \<longleftrightarrow>
     \<not> startsWith m taskStartPrefix \<and> \<not> startsWith m (ascii ''Token usage:'')
     \<and> \<not> startsWith m (ascii ''Session debug_url:'')"

text \<open>
  One run of the effect: its two local variables, and what it has handed to React so
  far: the updaters of its \<^verbatim>\<open>setMessages(prev => [...prev, m])\<close> calls in call
  order (React applies them in that order), and the argument of its last
  \<^verbatim>\<open>setCurrentHumanQuestion\<close> call, if it made one.

  The object literal \<open>m\<close> stands inside the updater, and two of the literals read
  the variable \<^verbatim>\<open>currentStep\<close>, which the loop keeps assigning. So the literal is
  evaluated when React runs the updater, not when the effect calls
  \<^verbatim>\<open>setMessages\<close>: an updater is kept as the function from the value that
  \<^verbatim>\<open>currentStep\<close> has at that moment to the message it then appends.
\<close>

record effect_run =
  currentStepMessages :: "js_string list"
  currentStep :: "js_string option"
  updaters :: "(js_string option \<Rightarrow> display_message) list"
  questionSet :: "js_string option"

definition initialRun :: effect_run where
  "initialRun = \<lparr>currentStepMessages = [], currentStep = None, updaters = [],
                  questionSet = None\<rparr>"

text \<open>
  \<^verbatim>\<open>setMessages(prev => [...prev, m])\<close>. The literal \<open>lit\<close> is given the
  reading of the clock (its \<^verbatim>\<open>new Date()\<close>; the updaters run in call order, so
  the \<open>k\<close>-th of them makes the \<open>k\<close>-th reading) and the value of
  \<^verbatim>\<open>currentStep\<close>. React runs an updater at the call itself when the component
  has no update pending, which can only be at the first call of a run (\<open>idle\<close> says
  whether it is so); every other updater waits in the queue until the effect has
  returned.
\<close>

definition appendMessage ::
  "bool \<Rightarrow> clock \<Rightarrow> (js_string \<Rightarrow> js_string option \<Rightarrow> display_message)
     \<Rightarrow> effect_run \<Rightarrow> effect_run" where
  "appendMessage idle clk lit run =
     (let u = lit (clk (length (updaters run)))
      in if idle \<and> updaters run = []
         then run\<lparr>updaters := [\<lambda>v. u (currentStep run)]\<rparr>
         else run\<lparr>updaters := updaters run @ [u]\<rparr>)"

text \<open>
  What React appends when it runs the queue while \<^verbatim>\<open>currentStep\<close> has the value
  \<open>v\<close>; and what it appends for a run that has ended, whose queue it runs with the
  last value of the variable.
\<close>

definition settle :: "js_string option \<Rightarrow> effect_run \<Rightarrow> display_message list" where
  "settle v run = map (\<lambda>u. u v) (updaters run)"

definition appended :: "effect_run \<Rightarrow> display_message list" where
  "appended run = settle (currentStep run) run"

text \<open>The inner \<^verbatim>\<open>currentStepMessages.forEach\<close> that adds the bucket again.\<close>

definition replayStep :: "bool \<Rightarrow> clock \<Rightarrow> effect_run \<Rightarrow> effect_run" where
  "replayStep idle clk run =
     foldl (\<lambda>r msg. appendMessage idle clk (\<lambda>t v. botMessage msg t) r) run
       (currentStepMessages run)"

text \<open>The callback of \<^verbatim>\<open>logs.forEach\<close>, branch by branch.\<close>

definition logCallback :: "bool \<Rightarrow> clock \<Rightarrow> effect_run \<Rightarrow> log_entry \<Rightarrow> effect_run" where
  "logCallback idle clk run log =
     (if \<not> shouldShowLog (message log) then run
      else if startsWith (message log) (ascii ''[ASK_HUMAN]'') then
        (let question = replace (message log) (ascii ''[ASK_HUMAN] '') []
         in appendMessage idle clk (\<lambda>t v. (botMessage question t)\<lparr>isQuestion := True\<rparr>)
              (run\<lparr>questionSet := Some question\<rparr>))
      else if startsWith (message log) (ascii ''[USER_RESPONSE]'') then
        (let response = replace (message log) (ascii ''[USER_RESPONSE] '') []
         in appendMessage idle clk
              (\<lambda>t v. (botMessage response t)\<lparr>sender := User, isResponse := True\<rparr>) run)
      else if startsWith (message log) (ascii ''Executing step'') then
        (let run1 = (if truthy (currentStep run) \<and> length (currentStepMessages run) > 0
                     then replayStep idle clk run else run);
             run2 = appendMessage idle clk
                      (\<lambda>t v. (botMessage (message log) t)
                                \<lparr>step := Some v, isStepMessage := True\<rparr>) run1
         in run2\<lparr>currentStep := Some (message log), currentStepMessages := []\<rparr>)
      else if truthy (currentStep run) then
        appendMessage idle clk (\<lambda>t v. (botMessage (message log) t)\<lparr>step := Some v\<rparr>)
          (run\<lparr>currentStepMessages := currentStepMessages run @ [message log]\<rparr>)
      else appendMessage idle clk (\<lambda>t v. botMessage (message log) t) run)"

text \<open>\<^verbatim>\<open>logs.forEach(log => ...)\<close> from a given point of the run.\<close>

definition forEachLog ::
  "bool \<Rightarrow> clock \<Rightarrow> effect_run \<Rightarrow> log_entry list \<Rightarrow> effect_run" where
  "forEachLog idle clk run logs = foldl (logCallback idle clk) run logs"

section \<open>State of the components\<close>

text \<open>
  What the handlers print with \<^verbatim>\<open>console.warn\<close> and \<^verbatim>\<open>console.error\<close>,
  the requests they hand to \<^verbatim>\<open>fetch\<close>, and how a fetch can end: the promise
  rejects, \<^verbatim>\<open>response.json()\<close> rejects, or the body parses to \<open>data\<close>.
\<close>

datatype js_error = FetchError | JsonError

datatype diagnostic = Warn js_string js_error | Error js_string js_error

datatype request =
    GetLogs "js_string option" int
  | GetStatus "js_string option"
  | PostHumanResponse "js_string option" js_string
  | PostSend js_string

datatype 'a fetched = Rejected | Malformed | Json 'a

text \<open>The bodies of the three endpoints, with the fields the handlers read.\<close>

record logs_response =
  resp_logs :: "log_entry list option"
  next_index :: int

record status_response =
  status :: js_string
  response :: "js_string option"

record send_response =
  task_id :: "js_string option"

text \<open>
  The \<^verbatim>\<open>useState\<close> cells of \<^verbatim>\<open>App\<close> (\<open>currentTaskId\<close>),
  \<^verbatim>\<open>MainContent\<close> (\<open>isLoading\<close>), \<^verbatim>\<open>useLogPolling\<close> (\<open>lastIndex\<close>,
  \<open>logs\<close>) and \<^verbatim>\<open>ChatArea\<close> (the next four), and the two output channels.
  Three more cells belong to the runtime: whether React will run the first updater of
  the next log-processing run at the call (\<open>chatIdle\<close>; the model does not follow how
  React changes it, and every statement about a state holds for both values), and the
  fetches of the two pollers that are in flight: for a status fetch the value of
  \<^verbatim>\<open>isLoading\<close> that its callback closed over, for the log fetches their number
  (their callback reads nothing it closed over after the fetch).
\<close>

record ui_state =
  currentTaskId :: "js_string option"
  isLoading :: bool
  lastIndex :: int
  logs :: "log_entry list"
  messages :: "display_message list"
  inputValue :: js_string
  isAwaitingHuman :: bool
  currentHumanQuestion :: js_string
  console :: "diagnostic list"
  network :: "request list"
  chatIdle :: bool
  statusPending :: "bool list"
  logsPending :: nat

text \<open>The four Cyrillic literals of \<^verbatim>\<open>ChatArea.jsx\<close>, as code units.\<close>

definition greetingText :: js_string where
  "greetingText =
    [0x41F, 0x440, 0x438, 0x432, 0x435, 0x442, 0x21, 0x20, 0x42F, 0x20, 0x438, 0x43D,
     0x442, 0x435, 0x43B, 0x43B, 0x435, 0x43A, 0x442, 0x443, 0x430, 0x43B, 0x44C, 0x43D,
     0x44B, 0x439, 0x20, 0x43F, 0x43E, 0x43C, 0x43E, 0x449, 0x43D, 0x438, 0x43A, 0x20,
     0x4F, 0x70, 0x65, 0x6E, 0x41, 0x67, 0x65, 0x6E, 0x74, 0x2E, 0x20, 0x412, 0x432, 0x435,
     0x434, 0x438, 0x442, 0x435, 0x20, 0x432, 0x430, 0x448, 0x20, 0x432, 0x43E, 0x43F,
     0x440, 0x43E, 0x441, 0x20, 0x438, 0x43B, 0x438, 0x20, 0x43A, 0x43E, 0x43C, 0x430,
     0x43D, 0x434, 0x443, 0x2C, 0x20, 0x438, 0x20, 0x44F, 0x20, 0x43F, 0x43E, 0x441, 0x442,
     0x430, 0x440, 0x430, 0x44E, 0x441, 0x44C, 0x20, 0x43F, 0x43E, 0x43C, 0x43E, 0x447,
     0x44C, 0x2E]"

definition thinkingText :: js_string where
  "thinkingText =
    [0x414, 0x443, 0x43C, 0x430, 0x44E, 0x2E, 0x2E, 0x2E]"

definition responseErrorText :: js_string where
  "responseErrorText =
    [0x41E, 0x448, 0x438, 0x431, 0x43A, 0x430, 0x20, 0x43F, 0x440, 0x438, 0x20, 0x43E,
     0x442, 0x43F, 0x440, 0x430, 0x432, 0x43A, 0x435, 0x20, 0x43E, 0x442, 0x432, 0x435,
     0x442, 0x430, 0x2E, 0x20, 0x41F, 0x43E, 0x43F, 0x440, 0x43E, 0x431, 0x443, 0x439,
     0x442, 0x435, 0x20, 0x441, 0x43D, 0x43E, 0x432, 0x430, 0x2E]"

definition sendErrorText :: js_string where
  "sendErrorText =
    [0x41E, 0x448, 0x438, 0x431, 0x43A, 0x430, 0x20, 0x43F, 0x440, 0x438, 0x20, 0x43E,
     0x442, 0x43F, 0x440, 0x430, 0x432, 0x43A, 0x435, 0x20, 0x437, 0x430, 0x43F, 0x440,
     0x43E, 0x441, 0x430, 0x2C, 0x20, 0x43F, 0x43E, 0x43F, 0x440, 0x43E, 0x431, 0x443,
     0x439, 0x442, 0x435, 0x20, 0x441, 0x43D, 0x43E, 0x432, 0x430, 0x2E]"

definition initialState :: "clock \<Rightarrow> ui_state" where
  "initialState clk =
     \<lparr>currentTaskId = None, isLoading = False, lastIndex = 0, logs = [],
      messages = [(botMessage greetingText (clk 0))\<lparr>isStepMessage := True\<rparr>],
      inputValue = [], isAwaitingHuman = False, currentHumanQuestion = [],
      console = [], network = [], chatIdle = True, statusPending = [], logsPending = 0\<rparr>"

subsection \<open>MainContent and useLogPolling\<close>

definition resetLogs :: "ui_state \<Rightarrow> ui_state" where
  "resetLogs s = s\<lparr>logs := [], lastIndex := 0\<rparr>"

definition handleStartLoading :: "ui_state \<Rightarrow> ui_state" where
  "handleStartLoading s = resetLogs (s\<lparr>isLoading := True\<rparr>)"

definition handleStopLoading :: "ui_state \<Rightarrow> ui_state" where
  "handleStopLoading s = s\<lparr>isLoading := False\<rparr>"

text \<open>
  The polling effect of \<^verbatim>\<open>useLogPolling\<close> returns early when
  \<^verbatim>\<open>!taskId || !isLoading\<close> and installs \<^verbatim>\<open>setInterval(pollLogs, 1000)\<close>
  otherwise; its cleanup clears the interval. \<open>logTimer\<close> is the period of the interval
  that is installed in a state, \<open>None\<close> when there is none.
\<close>

definition logTimer :: "ui_state \<Rightarrow> nat option" where
  "logTimer s = (if \<not> truthy (currentTaskId s) \<or> \<not> isLoading s then None else Some 1000)"

text \<open>The body of the \<^verbatim>\<open>try\<close> block of \<^verbatim>\<open>pollLogs\<close>, after the fetch.\<close>

definition pollLogs_try :: "logs_response fetched \<Rightarrow> ui_state \<Rightarrow> js_error + ui_state" where
  "pollLogs_try r s =
     (case r of
        Rejected \<Rightarrow> Inl FetchError
      | Malformed \<Rightarrow> Inl JsonError
      | Json data \<Rightarrow>
          (case resp_logs data of
             None \<Rightarrow> Inr s
           | Some ls \<Rightarrow>
               if length ls > 0
               then Inr (s\<lparr>logs := logs s @ ls, lastIndex := next_index data\<rparr>)
               else Inr s))"

text \<open>
  \<^verbatim>\<open>pollLogs\<close>: the request carries the cursor, and the \<^verbatim>\<open>catch\<close> prints a
  warning. \<open>Inl\<close> would be an exception that leaves the function.
\<close>

definition pollLogs :: "logs_response fetched \<Rightarrow> ui_state \<Rightarrow> js_error + ui_state" where
  "pollLogs r s =
     (let s0 = s\<lparr>network := network s @ [GetLogs (currentTaskId s) (lastIndex s)]\<rparr>
      in case pollLogs_try r s0 of
           Inl e \<Rightarrow> Inr (s0\<lparr>console := console s0 @ [Warn (ascii ''Error polling logs:'') e]\<rparr>)
         | Inr s' \<Rightarrow> Inr s')"

text \<open>
  The two halves of \<^verbatim>\<open>pollLogs\<close> when its fetch does not end at once: the call
  up to the \<^verbatim>\<open>await\<close>, which sends the request, and the rest of the
  \<^verbatim>\<open>try\<close> and the \<^verbatim>\<open>catch\<close>, which run when the fetch ends, on the state
  of that moment. Nothing stops the second half: the code has no flag and no abort for
  a fetch whose interval has been cleared meanwhile.
\<close>

definition pollLogs_begin :: "ui_state \<Rightarrow> ui_state" where
  "pollLogs_begin s =
     s\<lparr>network := network s @ [GetLogs (currentTaskId s) (lastIndex s)],
       logsPending := Suc (logsPending s)\<rparr>"

definition pollLogs_end :: "logs_response fetched \<Rightarrow> ui_state \<Rightarrow> js_error + ui_state" where
  "pollLogs_end r s =
     (case pollLogs_try r s of
        Inl e \<Rightarrow> Inr (s\<lparr>console := console s @ [Warn (ascii ''Error polling logs:'') e]\<rparr>)
      | Inr s' \<Rightarrow> Inr s')"

subsection \<open>ChatArea\<close>

text \<open>
  The effect on \<^verbatim>\<open>[logs]\<close>: nothing for an empty list; otherwise one run over the
  whole list, whose queued updates React then applies to the state.
\<close>

definition processLogs :: "clock \<Rightarrow> ui_state \<Rightarrow> ui_state" where
  "processLogs clk s =
     (if length (logs s) = 0 then s
      else let run = forEachLog (chatIdle s) clk initialRun (logs s)
           in s\<lparr>messages := messages s @ appended run,
                currentHumanQuestion :=
                  (case questionSet run of None \<Rightarrow> currentHumanQuestion s | Some q \<Rightarrow> q)\<rparr>)"

text \<open>
  The status effect returns early when \<^verbatim>\<open>!currentTaskId\<close> and installs
  \<^verbatim>\<open>setInterval(..., 1000)\<close> otherwise; its cleanup clears the interval.
\<close>

definition statusTimer :: "ui_state \<Rightarrow> nat option" where
  "statusTimer s = (if \<not> truthy (currentTaskId s) then None else Some 1000)"

text \<open>
  The \<^verbatim>\<open>try\<close> block of the interval callback, after the fetch. The callback
  reads \<^verbatim>\<open>isLoading\<close> from the render that installed its interval: \<open>loading\<close>
  is that value.
\<close>

definition pollStatus_try ::
  "clock \<Rightarrow> bool \<Rightarrow> status_response fetched \<Rightarrow> ui_state \<Rightarrow> js_error + ui_state" where
  "pollStatus_try clk loading r s =
     (case r of
        Rejected \<Rightarrow> Inl FetchError
      | Malformed \<Rightarrow> Inl JsonError
      | Json data \<Rightarrow>
          if status data = ascii ''awaiting_human'' then
            Inr (let s1 = s\<lparr>isAwaitingHuman := True\<rparr>
                 in if loading then handleStopLoading s1 else s1)
          else if status data = ascii ''completed'' then
            Inr (let s1 = handleStopLoading (s\<lparr>isAwaitingHuman := False\<rparr>);
                     s2 = (case response data of
                             None \<Rightarrow> s1
                           | Some text \<Rightarrow>
                               if text \<noteq> []
                               then s1\<lparr>messages := messages s1 @ [botMessage text (clk 0)]\<rparr>
                               else s1)
                 in s2\<lparr>currentTaskId := None\<rparr>)
          else if status data = ascii ''error'' then
            Inr ((handleStopLoading (s\<lparr>isAwaitingHuman := False\<rparr>))\<lparr>currentTaskId := None\<rparr>)
          else Inr s)"

text \<open>
  The callback when its fetch ends at once: the state it finds is the one it was
  called in, and \<^verbatim>\<open>isLoading\<close> is still what it closed over.
\<close>

definition pollStatus :: "clock \<Rightarrow> status_response fetched \<Rightarrow> ui_state \<Rightarrow> js_error + ui_state" where
  "pollStatus clk r s =
     (let s0 = s\<lparr>network := network s @ [GetStatus (currentTaskId s)]\<rparr>
      in case pollStatus_try clk (isLoading s) r s0 of
           Inl e \<Rightarrow> Inr (s0\<lparr>console := console s0 @ [Warn (ascii ''Error polling status:'') e]\<rparr>)
         | Inr s' \<Rightarrow> Inr s')"

text \<open>
  The two halves of the callback when its fetch does not end at once: the call up to
  the \<^verbatim>\<open>await\<close> sends the request and keeps what the callback closed over; the
  rest runs when the fetch ends, on the state of that moment, whether or not the
  interval is still installed.
\<close>

definition pollStatus_begin :: "ui_state \<Rightarrow> ui_state" where
  "pollStatus_begin s =
     s\<lparr>network := network s @ [GetStatus (currentTaskId s)],
       statusPending := statusPending s @ [isLoading s]\<rparr>"

definition pollStatus_end ::
  "clock \<Rightarrow> bool \<Rightarrow> status_response fetched \<Rightarrow> ui_state \<Rightarrow> js_error + ui_state" where
  "pollStatus_end clk loading r s =
     (case pollStatus_try clk loading r s of
        Inl e \<Rightarrow> Inr (s\<lparr>console := console s @ [Warn (ascii ''Error polling status:'') e]\<rparr>)
      | Inr s' \<Rightarrow> Inr s')"


text \<open>
  \<^verbatim>\<open>handleSendMessage\<close>, given how its one fetch ends. The human-response branch
  only awaits the fetch, so every outcome but a rejection is its success; the send
  branch also parses the body. Both branches catch what they throw.
\<close>

definition handleSendMessage :: "clock \<Rightarrow> send_response fetched \<Rightarrow> ui_state \<Rightarrow> ui_state" where
  "handleSendMessage clk r s =
     (if trim (inputValue s) = [] \<or> (isLoading s \<and> \<not> isAwaitingHuman s) then s
      else if isAwaitingHuman s \<and> truthy (currentTaskId s) then
        (let s0 = s\<lparr>network := network s @ [PostHumanResponse (currentTaskId s) (inputValue s)]\<rparr>
         in case r of
              Rejected \<Rightarrow>
                s0\<lparr>console := console s0 @ [Error (ascii ''Error sending human response:'') FetchError],
                   messages := messages s0 @ [botMessage responseErrorText (clk 0)]\<rparr>
            | _ \<Rightarrow> handleStartLoading (s0\<lparr>inputValue := [], isAwaitingHuman := False\<rparr>))
      else
        (let newMessage = (botMessage (inputValue s) (clk 0))\<lparr>sender := User\<rparr>;
             s1 = s\<lparr>messages := messages s @
                     [newMessage, (botMessage thinkingText (clk 1))\<lparr>isStepMessage := True\<rparr>]\<rparr>;
             s2 = handleStartLoading (s1\<lparr>inputValue := []\<rparr>);
             s3 = s2\<lparr>network := network s2 @ [PostSend (inputValue s)]\<rparr>;
             failed = (\<lambda>e. handleStopLoading
                        (s3\<lparr>console := console s3 @ [Error (ascii ''Error sending message:'') e],
                            messages := filter (\<lambda>msg. sender msg \<noteq> Bot) (messages s3) @
                              [botMessage sendErrorText (clk 2)]\<rparr>))
         in case r of
              Json data \<Rightarrow> s3\<lparr>currentTaskId := task_id data\<rparr>
            | Rejected \<Rightarrow> failed FetchError
            | Malformed \<Rightarrow> failed JsonError))"

subsection \<open>Events\<close>

text \<open>
  What can happen to the interface. A tick of either interval happens only while the
  interval is installed. Its fetch may end before anything else happens (\<open>LogTick\<close>,
  \<open>StatusTick\<close>, with how the fetch ends), or stay in flight (\<open>LogFetch\<close>,
  \<open>StatusFetch\<close>) and end later (\<open>LogAnswer\<close>; \<open>StatusAnswer i\<close> for the \<open>i\<close>-th
  status fetch in flight, since answers need not come in order), when the second half
  of the callback runs unguarded. The other events are a click on the send button
  together with the end of its fetch, and typing. The effect on \<^verbatim>\<open>[logs]\<close> runs
  after an update that changed the list. An exception that left a handler would leave
  the state as it was.
\<close>

datatype ui_event =
    LogTick "logs_response fetched"
  | StatusTick "status_response fetched"
  | Send "send_response fetched"
  | Typed js_string
  | LogFetch
  | LogAnswer "logs_response fetched"
  | StatusFetch
  | StatusAnswer nat "status_response fetched"

fun ui_step :: "clock \<Rightarrow> ui_event \<Rightarrow> ui_state \<Rightarrow> ui_state" where
  "ui_step clk (LogTick r) s =
     (if logTimer s = None then s
      else case pollLogs r s of
             Inl e \<Rightarrow> s
           | Inr s' \<Rightarrow> if logs s' \<noteq> logs s then processLogs clk s' else s')"
| "ui_step clk (StatusTick r) s =
     (if statusTimer s = None then s
      else case pollStatus clk r s of Inl e \<Rightarrow> s | Inr s' \<Rightarrow> s')"
| "ui_step clk (Send r) s = handleSendMessage clk r s"
| "ui_step clk (Typed v) s = s\<lparr>inputValue := v\<rparr>"
| "ui_step clk LogFetch s = (if logTimer s = None then s else pollLogs_begin s)"
| "ui_step clk (LogAnswer r) s =
     (if logsPending s = 0 then s
      else let s0 = s\<lparr>logsPending := logsPending s - 1\<rparr>
           in case pollLogs_end r s0 of
                Inl e \<Rightarrow> s0
              | Inr s' \<Rightarrow> if logs s' \<noteq> logs s0 then processLogs clk s' else s')"
| "ui_step clk StatusFetch s = (if statusTimer s = None then s else pollStatus_begin s)"
| "ui_step clk (StatusAnswer i r) s =
     (if i \<ge> length (statusPending s) then s
      else let s0 = s\<lparr>statusPending := take i (statusPending s) @ drop (Suc i) (statusPending s)\<rparr>
           in case pollStatus_end clk (statusPending s ! i) r s0 of
                Inl e \<Rightarrow> s0
              | Inr s' \<Rightarrow> s')"

text \<open>A series of polls of the log endpoint, one response each.\<close>

definition pollAll :: "logs_response fetched list \<Rightarrow> ui_state \<Rightarrow> ui_state" where
  "pollAll rs s = foldl (\<lambda>st r. case pollLogs r st of Inl e \<Rightarrow> st | Inr st' \<Rightarrow> st') s rs"

text \<open>
  A message without its time stamp, to compare two runs that read different clocks.
\<close>

definition untimed :: "display_message \<Rightarrow> display_message" where
  "untimed m = m\<lparr>timestamp := []\<rparr>"

text \<open>
  A message without its step tag, to compare the messages of a run with those of a
  longer run, whose updaters find another value in \<^verbatim>\<open>currentStep\<close>.
\<close>

definition untagged :: "display_message \<Rightarrow> display_message" where
  "untagged m = m\<lparr>step := None\<rparr>"

text \<open>
  Two runs that made the same calls: they agree on the local variables, on the question
  set, and on the messages their queues give, up to the time stamps and, when
  \<open>tags\<close> is false, up to the step tags as well.
\<close>

definition erase :: "bool \<Rightarrow> display_message \<Rightarrow> display_message" where
  "erase tags m = (if tags then untimed m else untagged (untimed m))"

definition sameCalls :: "bool \<Rightarrow> effect_run \<Rightarrow> effect_run \<Rightarrow> bool" where
  "sameCalls tags run run' \<longleftrightarrow>
     currentStepMessages run = currentStepMessages run'
     \<and> currentStep run = currentStep run'
     \<and> questionSet run = questionSet run'
     \<and> length (updaters run) = length (updaters run')
     \<and> (\<forall>v. map (erase tags) (settle v run) = map (erase tags) (settle v run'))"

text \<open>
  The updaters a run has queued read \<^verbatim>\<open>currentStep\<close> for the step tag only.
\<close>

definition tagOnly :: "effect_run \<Rightarrow> bool" where
  "tagOnly run \<longleftrightarrow> (\<forall>u \<in> set (updaters run). \<forall>v v'. untagged (u v) = untagged (u v'))"


text \<open>
  What a parsed response of the logs endpoint brings: the guard of \<^verbatim>\<open>pollLogs\<close>
  (\<^verbatim>\<open>data.logs && data.logs.length > 0\<close>), and the entries of its
  \<^verbatim>\<open>logs\<close> array (none when the field is missing).
\<close>

definition hasNewLogs :: "logs_response \<Rightarrow> bool" where
  "hasNewLogs data = (case resp_logs data of None \<Rightarrow> False | Some ls \<Rightarrow> length ls > 0)"

definition receivedLogs :: "logs_response \<Rightarrow> log_entry list" where
  "receivedLogs data = (case resp_logs data of None \<Rightarrow> [] | Some ls \<Rightarrow> ls)"

section \<open>A concrete session\<close>

text \<open>
  The states the closed examples start from: two clocks, a minute apart, that read
  one second later at each call of an operation (for its first ten calls), and the interface after the user has typed \<^verbatim>\<open>hello\<close> and the
  send endpoint has answered with the task id \<^verbatim>\<open>t1\<close>.
\<close>

definition clk0 :: clock where
  "clk0 k = ascii ''2025-01-01T00:00:0'' @ [of_nat (48 + k)] @ ascii ''.000Z''"

definition clk1 :: clock where
  "clk1 k = ascii ''2025-01-01T00:01:0'' @ [of_nat (48 + k)] @ ascii ''.000Z''"

definition typedHello :: ui_state where
  "typedHello = ui_step clk0 (Typed (ascii ''hello'')) (initialState clk0)"

definition helloSent :: ui_state where
  "helloSent = ui_step clk0 (Send (Json \<lparr>task_id = Some (ascii ''t1'')\<rparr>)) typedHello"

text \<open>
  The same session after the status endpoint has answered \<^verbatim>\<open>awaiting_human\<close>
  and the user has typed the answer \<^verbatim>\<open>blue\<close>.
\<close>

definition awaitingAnswer :: ui_state where
  "awaitingAnswer =
     ui_step clk0 (Typed (ascii ''blue''))
       (ui_step clk0 (StatusTick (Json \<lparr>status = ascii ''awaiting_human'', response = None\<rparr>))
          helloSent)"

section \<open>The run of the log-processing effect\<close>

lemma appendMessage_fields [simp]:
  "currentStepMessages (appendMessage idle clk lit run) = currentStepMessages run"
  "currentStep (appendMessage idle clk lit run) = currentStep run"
  "questionSet (appendMessage idle clk lit run) = questionSet run"
  "length (updaters (appendMessage idle clk lit run)) = Suc (length (updaters run))"
  by (simp_all add: appendMessage_def Let_def)

lemma appendMessage_settle [simp]:
  "settle v (appendMessage idle clk lit run) =
     settle v run @
       [lit (clk (length (updaters run)))
          (if idle \<and> updaters run = [] then currentStep run else v)]"
  by (simp add: appendMessage_def settle_def Let_def)

lemma settle_length [simp]: "length (settle v run) = length (updaters run)"
  by (simp add: settle_def)

lemma settle_fields_update [simp]:
  "settle v (run\<lparr>currentStep := c\<rparr>) = settle v run"
  "settle v (run\<lparr>currentStepMessages := b\<rparr>) = settle v run"
  "settle v (run\<lparr>questionSet := q\<rparr>) = settle v run"
  by (simp_all add: settle_def)

lemma replay_foldl:
  "currentStepMessages
     (foldl (\<lambda>r msg. appendMessage idle clk (\<lambda>t v. botMessage msg t) r) run xs) =
     currentStepMessages run
   \<and> currentStep (foldl (\<lambda>r msg. appendMessage idle clk (\<lambda>t v. botMessage msg t) r) run xs) =
     currentStep run
   \<and> questionSet (foldl (\<lambda>r msg. appendMessage idle clk (\<lambda>t v. botMessage msg t) r) run xs) =
     questionSet run
   \<and> length (updaters (foldl (\<lambda>r msg. appendMessage idle clk (\<lambda>t v. botMessage msg t) r) run xs)) =
     length (updaters run) + length xs
   \<and> settle v (foldl (\<lambda>r msg. appendMessage idle clk (\<lambda>t v. botMessage msg t) r) run xs) =
     settle v run @
       map (\<lambda>(i, msg). botMessage msg (clk i)) (enumerate (length (updaters run)) xs)"
proof (induction xs arbitrary: run)
  case Nil
  show ?case by simp
next
  case (Cons x xs)
  show ?case
    unfolding foldl_Cons using Cons.IH [of "appendMessage idle clk (\<lambda>t v. botMessage x t) run"]
    by simp
qed

lemma replayStep_fields [simp]:
  "currentStepMessages (replayStep idle clk run) = currentStepMessages run"
  "currentStep (replayStep idle clk run) = currentStep run"
  "questionSet (replayStep idle clk run) = questionSet run"
  "length (updaters (replayStep idle clk run)) =
     length (updaters run) + length (currentStepMessages run)"
  using replay_foldl [of idle clk run "currentStepMessages run"]
  by (simp_all add: replayStep_def)

lemma replayStep_Nil [simp]:
  "updaters (replayStep idle clk run) = [] \<longleftrightarrow>
     updaters run = [] \<and> currentStepMessages run = []"
  using replayStep_fields(4) [of idle clk run] by (metis add_is_0 length_0_conv)

lemma replayStep_settle:
  "settle v (replayStep idle clk run) =
     settle v run @
       map (\<lambda>(i, msg). botMessage msg (clk i))
         (enumerate (length (updaters run)) (currentStepMessages run))"
  using replay_foldl [of idle clk run "currentStepMessages run" v]
  by (simp add: replayStep_def)

lemma step_marker_kind:
  assumes "startsWith m (ascii ''Executing step'')"
  shows "shouldShowLog m" and "\<not> startsWith m (ascii ''[ASK_HUMAN]'')"
    and "\<not> startsWith m (ascii ''[USER_RESPONSE]'')"
  using assms by (cases m; simp add: shouldShowLog_def taskStartPrefix_def ascii_def)+

lemma logCallback_step:
  assumes "startsWith (message log) (ascii ''Executing step'')"
  shows "logCallback idle clk run log =
     (appendMessage idle clk
        (\<lambda>t v. (botMessage (message log) t)\<lparr>step := Some v, isStepMessage := True\<rparr>)
        (if truthy (currentStep run) \<and> length (currentStepMessages run) > 0
         then replayStep idle clk run else run))
       \<lparr>currentStep := Some (message log), currentStepMessages := []\<rparr>"
  using step_marker_kind [OF assms] assms by (simp add: logCallback_def Let_def)

lemma logCallback_other:
  assumes "\<not> startsWith (message l) (ascii ''Executing step'')"
  shows "currentStep (logCallback idle clk run l) = currentStep run"
    and "currentStepMessages (logCallback idle clk run l) =
           currentStepMessages run @
             (if truthy (currentStep run) \<and> shouldShowLog (message l)
                 \<and> \<not> startsWith (message l) (ascii ''[ASK_HUMAN]'')
                 \<and> \<not> startsWith (message l) (ascii ''[USER_RESPONSE]'')
              then [message l] else [])"
  using assms by (simp_all add: logCallback_def Let_def)

lemma forEachLog_Cons [simp]:
  "forEachLog idle clk run (l # ls) = forEachLog idle clk (logCallback idle clk run l) ls"
  by (simp add: forEachLog_def)

lemma forEachLog_Nil [simp]: "forEachLog idle clk run [] = run"
  by (simp add: forEachLog_def)


lemma forEachLog_no_marker:
  assumes "\<forall>l \<in> set rest. \<not> startsWith (message l) (ascii ''Executing step'')"
    and "truthy (currentStep run)"
  shows "currentStep (forEachLog idle clk run rest) = currentStep run \<and>
         currentStepMessages (forEachLog idle clk run rest) =
           currentStepMessages run @
             map message (filter (\<lambda>l. shouldShowLog (message l)
                 \<and> \<not> startsWith (message l) (ascii ''[ASK_HUMAN]'')
                 \<and> \<not> startsWith (message l) (ascii ''[USER_RESPONSE]'')) rest)"
  using assms
proof (induction rest arbitrary: run)
  case Nil
  show ?case by simp
next
  case (Cons l rest)
  have nl: "\<not> startsWith (message l) (ascii ''Executing step'')"
    using Cons.prems(1) by simp
  have tr: "truthy (currentStep (logCallback idle clk run l))"
    using Cons.prems(2) by (simp add: logCallback_other(1) [OF nl])
  have rest: "\<forall>l \<in> set rest. \<not> startsWith (message l) (ascii ''Executing step'')"
    using Cons.prems(1) by simp
  show ?case
    using Cons.IH [OF rest tr] Cons.prems(2)
    by (simp add: logCallback_other [OF nl])
qed

lemma bucket_invariant_step:
  assumes "\<forall>m \<in> set (currentStepMessages run). \<not> startsWith m (ascii ''Executing step'')"
  shows "\<forall>m \<in> set (currentStepMessages (logCallback idle clk run l)).
           \<not> startsWith m (ascii ''Executing step'')"
proof (cases "startsWith (message l) (ascii ''Executing step'')")
  case True
  then show ?thesis by (simp add: logCallback_step)
next
  case False
  then show ?thesis using assms by (auto simp add: logCallback_other)
qed

lemma bucket_invariant:
  assumes "\<forall>m \<in> set (currentStepMessages run). \<not> startsWith m (ascii ''Executing step'')"
  shows "\<forall>m \<in> set (currentStepMessages (forEachLog idle clk run ls)).
           \<not> startsWith m (ascii ''Executing step'')"
  using assms
proof (induction ls arbitrary: run)
  case Nil
  then show ?case by simp
next
  case (Cons l ls)
  show ?case
    unfolding forEachLog_Cons
    by (rule Cons.IH) (rule bucket_invariant_step [OF Cons.prems])
qed

text \<open>What the queue of a run gives once a step marker has been handled.\<close>

lemma step_entry_settle:
  assumes "startsWith (message log) (ascii ''Executing step'')"
  shows "\<exists>replayed.
           settle v (logCallback idle clk run log) =
             settle v run @ replayed @
               [\<lparr>content = message log, sender = Bot,
                 timestamp = clk (length (updaters run) + length replayed),
                 step = Some (if idle \<and> updaters run = [] \<and> replayed = []
                              then currentStep run else v),
                 isStepMessage = True, isQuestion = False, isResponse = False\<rparr>]
           \<and> (\<forall>m \<in> set replayed. \<not> isStepMessage m)"
proof (cases "truthy (currentStep run) \<and> length (currentStepMessages run) > 0")
  case True
  let ?rep = "map (\<lambda>(i, msg). botMessage msg (clk i))
                (enumerate (length (updaters run)) (currentStepMessages run))"
  have "length ?rep = length (currentStepMessages run)"
    by simp
  then have ne: "?rep \<noteq> []"
    using True by (metis length_greater_0_conv)
  have "settle v (logCallback idle clk run log) =
          settle v run @ ?rep @
            [\<lparr>content = message log, sender = Bot,
              timestamp = clk (length (updaters run) + length ?rep),
              step = Some (if idle \<and> updaters run = [] \<and> ?rep = []
                           then currentStep run else v),
              isStepMessage = True, isQuestion = False, isResponse = False\<rparr>]"
    using True ne
    by (simp add: logCallback_step [OF assms] replayStep_settle botMessage_def)
  moreover have "\<forall>m \<in> set ?rep. \<not> isStepMessage m"
    by (auto simp: botMessage_def)
  ultimately show ?thesis by blast
next
  case False
  then have "settle v (logCallback idle clk run log) =
          settle v run @
            [\<lparr>content = message log, sender = Bot,
              timestamp = clk (length (updaters run)),
              step = Some (if idle \<and> updaters run = [] then currentStep run else v),
              isStepMessage = True, isQuestion = False, isResponse = False\<rparr>]"
    by (auto simp add: logCallback_step [OF assms] botMessage_def)
  then show ?thesis
    by (intro exI [of _ "[]"]) simp
qed

lemma logCallback_grows: "prefix (settle v run) (settle v (logCallback idle clk run l))"
  by (simp add: logCallback_def Let_def replayStep_settle)

lemma forEachLog_grows: "prefix (settle v run) (settle v (forEachLog idle clk run ls))"
proof (induction ls arbitrary: run)
  case Nil
  show ?case by simp
next
  case (Cons l ls)
  show ?case
    using logCallback_grows [of v run idle clk l] Cons.IH [of "logCallback idle clk run l"]
    by (auto intro: prefix_order.trans)
qed

lemma logCallback_headers:
  "length (filter isStepMessage (settle v (logCallback idle clk run l))) =
     length (filter isStepMessage (settle v run)) +
       (if startsWith (message l) (ascii ''Executing step'') then 1 else 0)"
proof (cases "startsWith (message l) (ascii ''Executing step'')")
  case True
  obtain replayed where
    app: "settle v (logCallback idle clk run l) = settle v run @ replayed @
               [\<lparr>content = message l, sender = Bot,
                 timestamp = clk (length (updaters run) + length replayed),
                 step = Some (if idle \<and> updaters run = [] \<and> replayed = []
                              then currentStep run else v),
                 isStepMessage = True, isQuestion = False, isResponse = False\<rparr>]"
    and plain: "\<forall>m \<in> set replayed. \<not> isStepMessage m"
    using step_entry_settle [OF True] by blast
  show ?thesis
    using True plain by (simp add: app)
next
  case False
  then show ?thesis
    by (simp add: logCallback_def Let_def botMessage_def)
qed

lemma forEachLog_headers:
  "length (filter isStepMessage (settle v (forEachLog idle clk run ls))) =
     length (filter isStepMessage (settle v run)) +
       length (filter (\<lambda>l. startsWith (message l) (ascii ''Executing step'')) ls)"
proof (induction ls arbitrary: run)
  case Nil
  show ?case by simp
next
  case (Cons l ls)
  show ?case
    unfolding forEachLog_Cons Cons.IH
    by (simp add: logCallback_headers)
qed

text \<open>Unfolding the run on a concrete log list.\<close>

lemmas run_simps = logCallback_def shouldShowLog_def ascii_def taskStartPrefix_def
  appendMessage_def replayStep_def Let_def truthy_def botMessage_def initialRun_def
  settle_def appended_def

text \<open>
  An updater of a run gives the same message for every value of
  \<^verbatim>\<open>currentStep\<close>, but for the step tag; so the messages of a run are, up to
  the step tags, a prefix of those of a longer run.
\<close>

lemma tagOnly_fields [simp]:
  "tagOnly (run\<lparr>currentStep := c\<rparr>) = tagOnly run"
  "tagOnly (run\<lparr>currentStepMessages := b\<rparr>) = tagOnly run"
  "tagOnly (run\<lparr>questionSet := q\<rparr>) = tagOnly run"
  by (simp_all add: tagOnly_def)









section \<open>Step markers\<close>

text \<open>
  Claim C3. An entry whose message begins with \<^verbatim>\<open>Executing step\<close> reaches the
  step branch of the callback, from any point \<open>run\<close> of the effect. There it queues
  the bucket of the step before (when a step is open and its bucket is not empty) as
  plain messages, and then one message for itself: of the messages the entry adds,
  exactly one has \<^verbatim>\<open>isStepMessage\<close>; it is a message of the bot with the entry's
  text, and its step tag is the value of \<^verbatim>\<open>currentStep\<close> when React runs the
  updater (\<open>v\<close>; the step open before the entry when the updater is the first of the
  run and runs at the call). The entry is not pushed on the bucket: the bucket is
  empty afterwards and the entry is the current step. Until the next marker, the
  bucket then collects, in order, the entries that are shown and are neither a
  question nor a user response, and the current step stays; a run that ends there
  appends the entry's one header, tagged with the entry itself unless it ran at the
  call, and after it no other message with \<^verbatim>\<open>isStepMessage\<close>. At no point of a
  run does a bucket hold a step marker, and a whole run appends as many messages with
  \<^verbatim>\<open>isStepMessage\<close> as its log list has step markers.
\<close>

theorem step_marker_opens_fresh_bucket:
  assumes marker: "startsWith (message log) (ascii ''Executing step'')"
    and rest: "\<forall>l \<in> set rest. \<not> startsWith (message l) (ascii ''Executing step'')"
  shows "(\<exists>replayed.
            settle v (logCallback idle clk run log) =
              settle v run @ replayed @
                [\<lparr>content = message log, sender = Bot,
                  timestamp = clk (length (updaters run) + length replayed),
                  step = Some (if idle \<and> updaters run = [] \<and> replayed = []
                               then currentStep run else v),
                  isStepMessage = True, isQuestion = False, isResponse = False\<rparr>]
            \<and> (\<forall>m \<in> set replayed. \<not> isStepMessage m))
       \<and> length (filter isStepMessage
            (drop (length (updaters run)) (settle v (logCallback idle clk run log)))) = 1
       \<and> currentStepMessages (logCallback idle clk run log) = []
       \<and> currentStep (logCallback idle clk run log) = Some (message log)
       \<and> currentStepMessages (forEachLog idle clk (logCallback idle clk run log) rest) =
           map message (filter (\<lambda>l. shouldShowLog (message l)
                 \<and> \<not> startsWith (message l) (ascii ''[ASK_HUMAN]'')
                 \<and> \<not> startsWith (message l) (ascii ''[USER_RESPONSE]'')) rest)
       \<and> currentStep (forEachLog idle clk (logCallback idle clk run log) rest) =
           Some (message log)
       \<and> (\<exists>replayed later.
            appended (forEachLog idle clk (logCallback idle clk run log) rest) =
              settle (Some (message log)) run @ replayed @
                [\<lparr>content = message log, sender = Bot,
                  timestamp = clk (length (updaters run) + length replayed),
                  step = Some (if idle \<and> updaters run = [] \<and> replayed = []
                               then currentStep run else Some (message log)),
                  isStepMessage = True, isQuestion = False, isResponse = False\<rparr>] @ later
            \<and> (\<forall>m \<in> set replayed. \<not> isStepMessage m)
            \<and> (\<forall>m \<in> set later. \<not> isStepMessage m))
       \<and> (\<forall>m \<in> set (currentStepMessages (forEachLog idle clk initialRun earlier)).
            \<not> startsWith m (ascii ''Executing step''))
       \<and> length (filter isStepMessage (appended (forEachLog idle clk initialRun earlier))) =
           length (filter (\<lambda>l. startsWith (message l) (ascii ''Executing step'')) earlier)"
proof -
  let ?run' = "logCallback idle clk run log"
  let ?hdr = "\<lambda>replayed w. \<lparr>content = message log, sender = Bot,
                  timestamp = clk (length (updaters run) + length replayed),
                  step = Some (if idle \<and> updaters run = [] \<and> replayed = []
                               then currentStep run else w),
                  isStepMessage = True, isQuestion = False, isResponse = False\<rparr>"
  have ex: "\<exists>replayed. settle w ?run' = settle w run @ replayed @ [?hdr replayed w]
            \<and> (\<forall>m \<in> set replayed. \<not> isStepMessage m)" for w
    using step_entry_settle [OF marker] by blast
  obtain replayed where
    app: "settle v ?run' = settle v run @ replayed @ [?hdr replayed v]"
    and plain: "\<forall>m \<in> set replayed. \<not> isStepMessage m"
    using ex [of v] by blast
  have one: "length (filter isStepMessage (drop (length (updaters run)) (settle v ?run'))) = 1"
    using plain by (simp add: app)
  have bucket: "currentStepMessages ?run' = []" and cur: "currentStep ?run' = Some (message log)"
    by (simp_all add: logCallback_step [OF marker])
  have "message log \<noteq> []"
    using marker by (cases "message log") (simp_all add: ascii_def)
  then have tr: "truthy (currentStep ?run')"
    by (simp add: cur truthy_def)
  have later: "currentStep (forEachLog idle clk ?run' rest) = Some (message log) \<and>
      currentStepMessages (forEachLog idle clk ?run' rest) =
        map message (filter (\<lambda>l. shouldShowLog (message l)
                 \<and> \<not> startsWith (message l) (ascii ''[ASK_HUMAN]'')
                 \<and> \<not> startsWith (message l) (ascii ''[USER_RESPONSE]'')) rest)"
    using forEachLog_no_marker [OF rest tr, of idle clk] by (simp add: bucket cur)
  have ended: "\<exists>replayed later.
            appended (forEachLog idle clk ?run' rest) =
              settle (Some (message log)) run @ replayed @
                [?hdr replayed (Some (message log))] @ later
            \<and> (\<forall>m \<in> set replayed. \<not> isStepMessage m)
            \<and> (\<forall>m \<in> set later. \<not> isStepMessage m)"
  proof -
    let ?w = "Some (message log)"
    obtain rep where
      a: "settle ?w ?run' = settle ?w run @ rep @ [?hdr rep ?w]"
      and p: "\<forall>m \<in> set rep. \<not> isStepMessage m"
      using ex [of ?w] by blast
    obtain more where m: "settle ?w (forEachLog idle clk ?run' rest) = settle ?w ?run' @ more"
      using forEachLog_grows [of ?w ?run' idle clk rest] by (auto simp: prefix_def)
    have "filter (\<lambda>l. startsWith (message l) (ascii ''Executing step'')) rest = []"
      using rest by (simp add: filter_empty_conv)
    then have "length (filter isStepMessage (settle ?w ?run' @ more)) =
        length (filter isStepMessage (settle ?w ?run'))"
      using forEachLog_headers [of ?w idle clk ?run' rest] by (simp add: m)
    then have "\<forall>m \<in> set more. \<not> isStepMessage m"
      by (simp add: filter_empty_conv)
    moreover have "appended (forEachLog idle clk ?run' rest) =
        settle ?w run @ rep @ [?hdr rep ?w] @ more"
      using later by (simp add: appended_def m a)
    ultimately show ?thesis
      using p by blast
  qed
  have inv: "\<forall>m \<in> set (currentStepMessages (forEachLog idle clk initialRun earlier)).
            \<not> startsWith m (ascii ''Executing step'')"
    by (rule bucket_invariant) (simp add: initialRun_def)
  have count: "length (filter isStepMessage (appended (forEachLog idle clk initialRun earlier))) =
           length (filter (\<lambda>l. startsWith (message l) (ascii ''Executing step'')) earlier)"
    by (simp add: appended_def forEachLog_headers) (simp add: settle_def initialRun_def)
  from app plain one bucket cur later ended inv count show ?thesis by blast
qed

theorem step_marker_opens_fresh_bucket_witness:
  "startsWith (ascii ''Executing step 2'') (ascii ''Executing step'')
   \<and> \<not> startsWith (ascii ''page loaded'') (ascii ''Executing step'')
   \<and> appended (forEachLog True clk0 initialRun
         [\<lparr>level = None, message = ascii ''boot''\<rparr>,
          \<lparr>level = None, message = ascii ''Executing step 1''\<rparr>,
          \<lparr>level = None, message = ascii ''opening page''\<rparr>,
          \<lparr>level = None, message = ascii ''Executing step 2''\<rparr>,
          \<lparr>level = None, message = ascii ''page loaded''\<rparr>]) =
       [\<lparr>content = ascii ''boot'', sender = Bot, timestamp = clk0 0,
         step = None, isStepMessage = False, isQuestion = False, isResponse = False\<rparr>,
        \<lparr>content = ascii ''Executing step 1'', sender = Bot, timestamp = clk0 1,
         step = Some (Some (ascii ''Executing step 2'')),
         isStepMessage = True, isQuestion = False, isResponse = False\<rparr>,
        \<lparr>content = ascii ''opening page'', sender = Bot, timestamp = clk0 2,
         step = Some (Some (ascii ''Executing step 2'')),
         isStepMessage = False, isQuestion = False, isResponse = False\<rparr>,
        \<lparr>content = ascii ''opening page'', sender = Bot, timestamp = clk0 3,
         step = None, isStepMessage = False, isQuestion = False, isResponse = False\<rparr>,
        \<lparr>content = ascii ''Executing step 2'', sender = Bot, timestamp = clk0 4,
         step = Some (Some (ascii ''Executing step 2'')),
         isStepMessage = True, isQuestion = False, isResponse = False\<rparr>,
        \<lparr>content = ascii ''page loaded'', sender = Bot, timestamp = clk0 5,
         step = Some (Some (ascii ''Executing step 2'')),
         isStepMessage = False, isQuestion = False, isResponse = False\<rparr>]
   \<and> length (filter isStepMessage (appended (forEachLog True clk0 initialRun
         [\<lparr>level = None, message = ascii ''boot''\<rparr>,
          \<lparr>level = None, message = ascii ''Executing step 1''\<rparr>,
          \<lparr>level = None, message = ascii ''opening page''\<rparr>,
          \<lparr>level = None, message = ascii ''Executing step 2''\<rparr>,
          \<lparr>level = None, message = ascii ''page loaded''\<rparr>]))) = 2
   \<and> currentStepMessages (forEachLog True clk0 initialRun
         [\<lparr>level = None, message = ascii ''boot''\<rparr>,
          \<lparr>level = None, message = ascii ''Executing step 1''\<rparr>,
          \<lparr>level = None, message = ascii ''opening page''\<rparr>,
          \<lparr>level = None, message = ascii ''Executing step 2''\<rparr>,
          \<lparr>level = None, message = ascii ''page loaded''\<rparr>]) = [ascii ''page loaded'']"
  using step_marker_opens_fresh_bucket
    [of "\<lparr>level = None, message = ascii ''Executing step 2''\<rparr>"
        "[\<lparr>level = None, message = ascii ''page loaded''\<rparr>]"
        "Some (ascii ''Executing step 2'')" True clk0
        "forEachLog True clk0 initialRun
            [\<lparr>level = None, message = ascii ''boot''\<rparr>,
             \<lparr>level = None, message = ascii ''Executing step 1''\<rparr>,
             \<lparr>level = None, message = ascii ''opening page''\<rparr>]"
        "[\<lparr>level = None, message = ascii ''boot''\<rparr>,
          \<lparr>level = None, message = ascii ''Executing step 1''\<rparr>,
          \<lparr>level = None, message = ascii ''opening page''\<rparr>,
          \<lparr>level = None, message = ascii ''Executing step 2''\<rparr>,
          \<lparr>level = None, message = ascii ''page loaded''\<rparr>]"]
  by (simp add: run_simps forEachLog_def clk0_def)

section \<open>The log poller\<close>

declare ui_step.simps [simp del]

lemma hello_not_blank: "trim (ascii ''hello'') \<noteq> []"
  by (simp add: trim_def ascii_def isWhiteSpace_def)

lemma helloSent_eq:
  "helloSent =
     \<lparr>currentTaskId = Some (ascii ''t1''), isLoading = True, lastIndex = 0, logs = [],
      messages = [(botMessage greetingText (clk0 0))\<lparr>isStepMessage := True\<rparr>,
                  (botMessage (ascii ''hello'') (clk0 0))\<lparr>sender := User\<rparr>,
                  (botMessage thinkingText (clk0 1))\<lparr>isStepMessage := True\<rparr>],
      inputValue = [], isAwaitingHuman = False, currentHumanQuestion = [],
      console = [], network = [PostSend (ascii ''hello'')],
      chatIdle = True, statusPending = [], logsPending = 0\<rparr>"
  by (simp add: helloSent_def typedHello_def ui_step.simps initialState_def handleSendMessage_def hello_not_blank Let_def
      handleStartLoading_def resetLogs_def)

lemma pollLogs_Json:
  "pollLogs (Json data) s =
     Inr (let s0 = s\<lparr>network := network s @ [GetLogs (currentTaskId s) (lastIndex s)]\<rparr>
          in case resp_logs data of
               None \<Rightarrow> s0
             | Some ls \<Rightarrow> if ls = [] then s0
                          else s0\<lparr>logs := logs s @ ls, lastIndex := next_index data\<rparr>)"
  by (simp add: pollLogs_def pollLogs_try_def Let_def split: option.split)

lemma pollLogs_failed:
  assumes "r = Rejected \<or> r = Malformed"
  shows "pollLogs r s =
     Inr (s\<lparr>network := network s @ [GetLogs (currentTaskId s) (lastIndex s)],
            console := console s @
              [Warn (ascii ''Error polling logs:'')
                 (if r = Rejected then FetchError else JsonError)]\<rparr>)"
  using assms by (auto simp add: pollLogs_def pollLogs_try_def Let_def)

lemma pollLogs_total: "\<exists>s'. pollLogs r s = Inr s'"
  by (cases r) (simp_all add: pollLogs_Json pollLogs_failed)

lemma pollLogs_network:
  "pollLogs r s = Inr s' \<Longrightarrow>
     network s' = network s @ [GetLogs (currentTaskId s) (lastIndex s)]"
  by (cases r) (auto simp add: pollLogs_Json pollLogs_failed Let_def split: option.splits if_splits)

lemma pollAll_snoc:
  "pollAll (rs @ [r]) s =
     (case pollLogs r (pollAll rs s) of Inl e \<Rightarrow> pollAll rs s | Inr s' \<Rightarrow> s')"
  unfolding pollAll_def by simp

lemma pollAll_Nil [simp]: "pollAll [] s = s"
  by (simp add: pollAll_def)

lemma pollLogs_Json_cases:
  "pollLogs (Json data) s =
     Inr (if hasNewLogs data
          then s\<lparr>network := network s @ [GetLogs (currentTaskId s) (lastIndex s)],
                 logs := logs s @ receivedLogs data, lastIndex := next_index data\<rparr>
          else s\<lparr>network := network s @ [GetLogs (currentTaskId s) (lastIndex s)]\<rparr>)"
  by (simp add: pollLogs_Json Let_def hasNewLogs_def receivedLogs_def split: option.split)

lemma receivedLogs_empty: "\<not> hasNewLogs data \<Longrightarrow> receivedLogs data = []"
  by (simp add: hasNewLogs_def receivedLogs_def split: option.splits)

lemma pollAll_logs:
  "logs (pollAll (map Json ds) s) = logs s @ concat (map receivedLogs ds)"
proof (induction ds rule: rev_induct)
  case Nil
  show ?case by simp
next
  case (snoc d ds)
  show ?case
    using snoc.IH
    by (cases "hasNewLogs d") (simp_all add: pollAll_snoc pollLogs_Json_cases receivedLogs_empty)
qed

lemma pollAll_lastIndex:
  "lastIndex (pollAll (map Json ds) s) =
     (if filter hasNewLogs ds = [] then lastIndex s
      else next_index (last (filter hasNewLogs ds)))"
proof (induction ds rule: rev_induct)
  case Nil
  show ?case by simp
next
  case (snoc d ds)
  show ?case
    using snoc.IH
    by (cases "hasNewLogs d") (simp_all add: pollAll_snoc pollLogs_Json_cases)
qed

lemma ui_step_LogTick_unchanged:
  assumes "pollLogs r s = Inr s'" and "logs s' = logs s"
  shows "ui_step clk (LogTick r) s = (if logTimer s = None then s else s')"
  using assms by (simp add: ui_step.simps)

text \<open>
  Claim C2, as amended. After any series of polls whose responses all parse, the
  accumulated log list is the old list followed by the entries of every
  \<^verbatim>\<open>logs\<close> array received, in order, so its length has grown by the sum of their
  lengths. The cursor is the \<^verbatim>\<open>next_index\<close> of the last response that carried
  at least one entry, and is unchanged when none did; it is the \<^verbatim>\<open>next_index\<close>
  of the last response whenever that response carried an entry.
\<close>

theorem cursor_and_logs_after_polls:
  "logs (pollAll (map Json ds) s) = logs s @ concat (map receivedLogs ds)
   \<and> length (logs (pollAll (map Json ds) s)) =
       length (logs s) + sum_list (map (\<lambda>d. length (receivedLogs d)) ds)
   \<and> lastIndex (pollAll (map Json ds) s) =
       (if filter hasNewLogs ds = [] then lastIndex s
        else next_index (last (filter hasNewLogs ds)))
   \<and> (ds \<noteq> [] \<and> hasNewLogs (last ds) \<longrightarrow>
        lastIndex (pollAll (map Json ds) s) = next_index (last ds))"
proof -
  have len: "length (logs (pollAll (map Json ds) s)) =
       length (logs s) + sum_list (map (\<lambda>d. length (receivedLogs d)) ds)"
    by (simp add: pollAll_logs length_concat comp_def)
  have lst: "lastIndex (pollAll (map Json ds) s) = next_index (last ds)"
    if "ds \<noteq> []" and "hasNewLogs (last ds)"
  proof -
    have "filter hasNewLogs (butlast ds @ [last ds]) =
            filter hasNewLogs (butlast ds) @ [last ds]"
      using that(2) by simp
    then have "filter hasNewLogs ds = filter hasNewLogs (butlast ds) @ [last ds]"
      using that(1) by simp
    then show ?thesis
      by (simp add: pollAll_lastIndex)
  qed
  show ?thesis
    using len lst by (simp add: pollAll_logs pollAll_lastIndex)
qed

theorem cursor_and_logs_after_polls_witness:
  "logs (pollAll
      [Json \<lparr>resp_logs = Some [\<lparr>level = Some (ascii ''INFO''), message = ascii ''Executing step 1''\<rparr>],
             next_index = 1\<rparr>,
       Json \<lparr>resp_logs = None, next_index = 1\<rparr>,
       Json \<lparr>resp_logs = Some [\<lparr>level = Some (ascii ''INFO''), message = ascii ''done''\<rparr>],
             next_index = 2\<rparr>] helloSent) =
     [\<lparr>level = Some (ascii ''INFO''), message = ascii ''Executing step 1''\<rparr>,
      \<lparr>level = Some (ascii ''INFO''), message = ascii ''done''\<rparr>]
   \<and> lastIndex (pollAll
      [Json \<lparr>resp_logs = Some [\<lparr>level = Some (ascii ''INFO''), message = ascii ''Executing step 1''\<rparr>],
             next_index = 1\<rparr>,
       Json \<lparr>resp_logs = None, next_index = 1\<rparr>,
       Json \<lparr>resp_logs = Some [\<lparr>level = Some (ascii ''INFO''), message = ascii ''done''\<rparr>],
             next_index = 2\<rparr>] helloSent) = 2"
  using cursor_and_logs_after_polls
    [of "[\<lparr>resp_logs = Some [\<lparr>level = Some (ascii ''INFO''), message = ascii ''Executing step 1''\<rparr>],
             next_index = 1\<rparr>,
          \<lparr>resp_logs = None, next_index = 1\<rparr>,
          \<lparr>resp_logs = Some [\<lparr>level = Some (ascii ''INFO''), message = ascii ''done''\<rparr>],
             next_index = 2\<rparr>]" helloSent]
  by (simp add: hasNewLogs_def receivedLogs_def helloSent_eq)

text \<open>
  The claim as stated fails when the last response is empty: the poller then keeps the
  cursor of the response before, whatever \<^verbatim>\<open>next_index\<close> the empty one carries.
\<close>

theorem cursor_after_empty_poll_counterexample:
  "lastIndex (pollAll
      [Json \<lparr>resp_logs = Some [\<lparr>level = Some (ascii ''INFO''), message = ascii ''Executing step 1''\<rparr>],
             next_index = 1\<rparr>,
       Json \<lparr>resp_logs = Some [], next_index = 3\<rparr>] helloSent) = 1
   \<and> lastIndex (pollAll
      [Json \<lparr>resp_logs = Some [\<lparr>level = Some (ascii ''INFO''), message = ascii ''Executing step 1''\<rparr>],
             next_index = 1\<rparr>,
       Json \<lparr>resp_logs = Some [], next_index = 3\<rparr>] helloSent)
     \<noteq> next_index \<lparr>resp_logs = Some [], next_index = 3\<rparr>"
  by (simp add: pollAll_def pollLogs_Json helloSent_eq Let_def)

text \<open>
  Claim C10. A parsed response without entries (no \<^verbatim>\<open>logs\<close> field, or an empty
  array) changes nothing but the record of the request that was made: the cursor and
  the log list stay as they were, whatever \<^verbatim>\<open>next_index\<close> the response carries,
  and so they do after the tick as a whole.
\<close>

theorem empty_poll_changes_nothing:
  assumes "resp_logs data = None \<or> resp_logs data = Some []"
  shows "pollLogs (Json data) s =
           Inr (s\<lparr>network := network s @ [GetLogs (currentTaskId s) (lastIndex s)]\<rparr>)
       \<and> lastIndex (ui_step clk (LogTick (Json data)) s) = lastIndex s
       \<and> logs (ui_step clk (LogTick (Json data)) s) = logs s"
proof -
  have p: "pollLogs (Json data) s =
           Inr (s\<lparr>network := network s @ [GetLogs (currentTaskId s) (lastIndex s)]\<rparr>)"
    using assms by (auto simp add: pollLogs_Json Let_def)
  show ?thesis
    by (simp add: p ui_step_LogTick_unchanged [OF p])
qed

theorem empty_poll_changes_nothing_witness:
  "lastIndex (ui_step clk0 (LogTick (Json \<lparr>resp_logs = Some [], next_index = 5\<rparr>)) helloSent) = 0
   \<and> logs (ui_step clk0 (LogTick (Json \<lparr>resp_logs = Some [], next_index = 5\<rparr>)) helloSent) = []
   \<and> logTimer helloSent = Some 1000"
  using empty_poll_changes_nothing [of "\<lparr>resp_logs = Some [], next_index = 5\<rparr>" helloSent clk0]
  by (simp add: ui_step.simps helloSent_eq logTimer_def truthy_def ascii_def)

text \<open>
  Claim C5. When the fetch of a poll rejects or its body does not parse, the
  \<^verbatim>\<open>catch\<close> of \<^verbatim>\<open>pollLogs\<close> takes the error: the call returns normally,
  having printed one warning on the console and changed nothing else but the record of
  the request. After the tick the cursor, the log list, the chat messages, the task id
  and the interval (hence its period of 1000 ms) are as before, and the next poll, however
  it ends, asks for the same task from the same offset.
\<close>

theorem failed_log_fetch_is_skipped:
  assumes "r = Rejected \<or> r = Malformed"
  shows "pollLogs r s =
           Inr (s\<lparr>network := network s @ [GetLogs (currentTaskId s) (lastIndex s)],
                  console := console s @
                    [Warn (ascii ''Error polling logs:'')
                       (if r = Rejected then FetchError else JsonError)]\<rparr>)
       \<and> lastIndex (ui_step clk (LogTick r) s) = lastIndex s
       \<and> logs (ui_step clk (LogTick r) s) = logs s
       \<and> messages (ui_step clk (LogTick r) s) = messages s
       \<and> currentTaskId (ui_step clk (LogTick r) s) = currentTaskId s
       \<and> logTimer (ui_step clk (LogTick r) s) = logTimer s
       \<and> (\<exists>s''. pollLogs r' (ui_step clk (LogTick r) s) = Inr s''
              \<and> last (network s'') = GetLogs (currentTaskId s) (lastIndex s))"
proof -
  let ?s' = "s\<lparr>network := network s @ [GetLogs (currentTaskId s) (lastIndex s)],
                  console := console s @
                    [Warn (ascii ''Error polling logs:'')
                       (if r = Rejected then FetchError else JsonError)]\<rparr>"
  have p: "pollLogs r s = Inr ?s'"
    by (rule pollLogs_failed [OF assms])
  have step: "ui_step clk (LogTick r) s = (if logTimer s = None then s else ?s')"
    by (simp add: ui_step_LogTick_unchanged [OF p])
  have fields: "lastIndex (ui_step clk (LogTick r) s) = lastIndex s"
    "logs (ui_step clk (LogTick r) s) = logs s"
    "messages (ui_step clk (LogTick r) s) = messages s"
    "currentTaskId (ui_step clk (LogTick r) s) = currentTaskId s"
    "logTimer (ui_step clk (LogTick r) s) = logTimer s"
    unfolding step by (simp_all add: logTimer_def)
  obtain s'' where nxt: "pollLogs r' (ui_step clk (LogTick r) s) = Inr s''"
    using pollLogs_total by blast
  have "last (network s'') = GetLogs (currentTaskId s) (lastIndex s)"
    using pollLogs_network [OF nxt] by (simp add: fields)
  with p fields nxt show ?thesis by blast
qed

theorem failed_log_fetch_is_skipped_witness:
  "lastIndex (ui_step clk0 (LogTick Rejected) helloSent) = 0
   \<and> logs (ui_step clk0 (LogTick Rejected) helloSent) = []
   \<and> messages (ui_step clk0 (LogTick Rejected) helloSent) = messages helloSent
   \<and> logTimer (ui_step clk0 (LogTick Rejected) helloSent) = Some 1000
   \<and> console (ui_step clk0 (LogTick Rejected) helloSent) =
       [Warn (ascii ''Error polling logs:'') FetchError]"
  using failed_log_fetch_is_skipped [of Rejected helloSent clk0 Malformed]
  by (simp add: ui_step.simps helloSent_eq logTimer_def truthy_def ascii_def)

section \<open>The status poller\<close>

lemma status_literals:
  "ascii ''completed'' \<noteq> ascii ''awaiting_human''"
  "ascii ''error'' \<noteq> ascii ''awaiting_human''"
  "ascii ''error'' \<noteq> ascii ''completed''"
  by (simp_all add: ascii_def)

lemma pollStatus_awaiting_human:
  assumes "status data = ascii ''awaiting_human''"
  shows "pollStatus clk (Json data) s =
     Inr (if isLoading s
          then s\<lparr>network := network s @ [GetStatus (currentTaskId s)],
                 isAwaitingHuman := True, isLoading := False\<rparr>
          else s\<lparr>network := network s @ [GetStatus (currentTaskId s)],
                 isAwaitingHuman := True\<rparr>)"
  using assms by (simp add: pollStatus_def pollStatus_try_def Let_def handleStopLoading_def)

lemma pollStatus_completed:
  assumes "status data = ascii ''completed''"
  shows "pollStatus clk (Json data) s =
     Inr (s\<lparr>network := network s @ [GetStatus (currentTaskId s)],
            isAwaitingHuman := False, isLoading := False,
            messages := messages s @
              (case response data of
                 None \<Rightarrow> []
               | Some txt \<Rightarrow> if txt \<noteq> [] then [botMessage txt (clk 0)] else []),
            currentTaskId := None\<rparr>)"
  using assms
  by (simp add: pollStatus_def pollStatus_try_def Let_def handleStopLoading_def status_literals
      split: option.split)

lemma pollStatus_error:
  assumes "status data = ascii ''error''"
  shows "pollStatus clk (Json data) s =
     Inr (s\<lparr>network := network s @ [GetStatus (currentTaskId s)],
            isAwaitingHuman := False, isLoading := False, currentTaskId := None\<rparr>)"
  using assms
  by (simp add: pollStatus_def pollStatus_try_def Let_def handleStopLoading_def status_literals)

lemma pollStatus_end_completed:
  assumes "status data = ascii ''completed''"
  shows "pollStatus_end clk loading (Json data) s =
     Inr (s\<lparr>isAwaitingHuman := False, isLoading := False,
            messages := messages s @
              (case response data of
                 None \<Rightarrow> []
               | Some txt \<Rightarrow> if txt \<noteq> [] then [botMessage txt (clk 0)] else []),
            currentTaskId := None\<rparr>)"
  using assms
  by (simp add: pollStatus_end_def pollStatus_try_def Let_def handleStopLoading_def
      status_literals split: option.split)



lemma ui_step_StatusAnswer:
  assumes "i < length (statusPending s)"
    and "pollStatus_end clk (statusPending s ! i) r
           (s\<lparr>statusPending := take i (statusPending s) @ drop (Suc i) (statusPending s)\<rparr>) =
         Inr s'"
  shows "ui_step clk (StatusAnswer i r) s = s'"
  using assms by (simp add: ui_step.simps Let_def)

lemma ui_step_StatusFetch_idle:
  assumes "currentTaskId s = None"
  shows "ui_step clk StatusFetch s = s"
  using assms by (simp add: ui_step.simps statusTimer_def truthy_def)

lemma ui_step_StatusTick:
  assumes "truthy (currentTaskId s)" and "pollStatus clk r s = Inr s'"
  shows "ui_step clk (StatusTick r) s = s'"
  using assms by (simp add: ui_step.simps statusTimer_def)

lemma ui_step_StatusTick_idle:
  assumes "currentTaskId s = None"
  shows "ui_step clk (StatusTick r) s = s"
  using assms by (simp add: ui_step.simps statusTimer_def truthy_def)

lemma ui_step_LogTick_idle:
  assumes "currentTaskId s = None"
  shows "ui_step clk (LogTick r) s = s"
  using assms by (simp add: ui_step.simps logTimer_def truthy_def)



text \<open>
  Claim C8. While a task is active, a status response \<^verbatim>\<open>error\<close> clears the task
  id, so that no status interval (and no log interval) is installed any more and a
  later tick finds nothing to run; it turns the two flags off and appends no message.
\<close>

theorem error_status_stops_polling:
  assumes "truthy (currentTaskId s)" and "status data = ascii ''error''"
  shows "currentTaskId (ui_step clk (StatusTick (Json data)) s) = None
       \<and> statusTimer (ui_step clk (StatusTick (Json data)) s) = None
       \<and> logTimer (ui_step clk (StatusTick (Json data)) s) = None
       \<and> messages (ui_step clk (StatusTick (Json data)) s) = messages s
       \<and> \<not> isLoading (ui_step clk (StatusTick (Json data)) s)
       \<and> \<not> isAwaitingHuman (ui_step clk (StatusTick (Json data)) s)
       \<and> ui_step clk' (StatusTick r') (ui_step clk (StatusTick (Json data)) s) =
           ui_step clk (StatusTick (Json data)) s"
proof -
  let ?s' = "ui_step clk (StatusTick (Json data)) s"
  have s': "?s' = s\<lparr>network := network s @ [GetStatus (currentTaskId s)],
            isAwaitingHuman := False, isLoading := False, currentTaskId := None\<rparr>"
    by (rule ui_step_StatusTick [OF assms(1) pollStatus_error [OF assms(2)]])
  have none: "currentTaskId ?s' = None"
    by (simp add: s')
  show ?thesis
    using ui_step_StatusTick_idle [OF none] none
    by (simp add: s' statusTimer_def logTimer_def truthy_def)
qed

theorem error_status_stops_polling_witness:
  "truthy (currentTaskId helloSent)
   \<and> currentTaskId (ui_step clk0
        (StatusTick (Json \<lparr>status = ascii ''error'', response = None\<rparr>)) helloSent) = None
   \<and> messages (ui_step clk0
        (StatusTick (Json \<lparr>status = ascii ''error'', response = None\<rparr>)) helloSent)
       = messages helloSent
   \<and> statusTimer (ui_step clk0
        (StatusTick (Json \<lparr>status = ascii ''error'', response = None\<rparr>)) helloSent) = None"
  using error_status_stops_polling
    [of helloSent "\<lparr>status = ascii ''error'', response = None\<rparr>" clk0]
  by (simp add: helloSent_eq truthy_def ascii_def)

text \<open>
  Claim C4, as amended. While a task is active, a status response \<^verbatim>\<open>completed\<close>,
  taken at a tick or as the end of a status fetch in flight, clears the task id, so
  that no status interval (and no log interval) is installed any more: a later tick
  does not happen, and no further status fetch is issued. It appends exactly one
  message, of the bot and with the response text as content, when the
  \<^verbatim>\<open>response\<close> field is present and not the empty string, and no message
  otherwise; so the response \<^verbatim>\<open>done\<close> gives exactly one bot message with the
  content \<^verbatim>\<open>done\<close>.
\<close>

theorem completed_status_finishes_task:
  assumes "truthy (currentTaskId s)" and "status data = ascii ''completed''"
  shows "currentTaskId (ui_step clk (StatusTick (Json data)) s) = None
       \<and> statusTimer (ui_step clk (StatusTick (Json data)) s) = None
       \<and> logTimer (ui_step clk (StatusTick (Json data)) s) = None
       \<and> ui_step clk' (StatusTick r') (ui_step clk (StatusTick (Json data)) s) =
           ui_step clk (StatusTick (Json data)) s
       \<and> ui_step clk' StatusFetch (ui_step clk (StatusTick (Json data)) s) =
           ui_step clk (StatusTick (Json data)) s
       \<and> messages (ui_step clk (StatusTick (Json data)) s) =
           messages s @
             (case response data of
                None \<Rightarrow> []
              | Some txt \<Rightarrow>
                  if txt \<noteq> []
                  then [\<lparr>content = txt, sender = Bot, timestamp = clk 0, step = None,
                       isStepMessage = False, isQuestion = False, isResponse = False\<rparr>]
                  else [])
       \<and> (response data = Some (ascii ''done'') \<longrightarrow>
            messages (ui_step clk (StatusTick (Json data)) s) =
              messages s @
                [\<lparr>content = ascii ''done'', sender = Bot, timestamp = clk 0, step = None,
                       isStepMessage = False, isQuestion = False, isResponse = False\<rparr>])
       \<and> (i < length (statusPending s) \<longrightarrow>
            currentTaskId (ui_step clk (StatusAnswer i (Json data)) s) = None
            \<and> statusTimer (ui_step clk (StatusAnswer i (Json data)) s) = None
            \<and> ui_step clk' StatusFetch (ui_step clk (StatusAnswer i (Json data)) s) =
                ui_step clk (StatusAnswer i (Json data)) s
            \<and> messages (ui_step clk (StatusAnswer i (Json data)) s) =
                messages s @
                  (case response data of
                     None \<Rightarrow> []
                   | Some txt \<Rightarrow>
                       if txt \<noteq> []
                       then [\<lparr>content = txt, sender = Bot, timestamp = clk 0, step = None,
                       isStepMessage = False, isQuestion = False, isResponse = False\<rparr>]
                       else []))"
proof -
  let ?s' = "ui_step clk (StatusTick (Json data)) s"
  let ?new = "case response data of
                 None \<Rightarrow> []
               | Some txt \<Rightarrow> if txt \<noteq> [] then [botMessage txt (clk 0)] else []"
  have s': "?s' = s\<lparr>network := network s @ [GetStatus (currentTaskId s)],
            isAwaitingHuman := False, isLoading := False,
            messages := messages s @ ?new, currentTaskId := None\<rparr>"
    by (rule ui_step_StatusTick [OF assms(1) pollStatus_completed [OF assms(2)]])
  have none: "currentTaskId ?s' = None"
    by (simp add: s')
  have nonempty: "ascii ''done'' \<noteq> []"
    by (simp add: ascii_def)
  have tick: "currentTaskId ?s' = None \<and> statusTimer ?s' = None \<and> logTimer ?s' = None
      \<and> ui_step clk' (StatusTick r') ?s' = ?s' \<and> ui_step clk' StatusFetch ?s' = ?s'
      \<and> messages ?s' = messages s @ ?new"
    using ui_step_StatusTick_idle [OF none] ui_step_StatusFetch_idle [OF none] none
    by (simp add: s' statusTimer_def logTimer_def truthy_def)
  have answer: "currentTaskId (ui_step clk (StatusAnswer i (Json data)) s) = None
            \<and> statusTimer (ui_step clk (StatusAnswer i (Json data)) s) = None
            \<and> ui_step clk' StatusFetch (ui_step clk (StatusAnswer i (Json data)) s) =
                ui_step clk (StatusAnswer i (Json data)) s
            \<and> messages (ui_step clk (StatusAnswer i (Json data)) s) = messages s @ ?new"
    if "i < length (statusPending s)"
  proof -
    let ?a = "ui_step clk (StatusAnswer i (Json data)) s"
    have a: "?a = s\<lparr>statusPending := take i (statusPending s) @ drop (Suc i) (statusPending s),
            isAwaitingHuman := False, isLoading := False,
            messages := messages s @ ?new, currentTaskId := None\<rparr>"
      using ui_step_StatusAnswer [OF that pollStatus_end_completed [OF assms(2)]] by simp
    have an: "currentTaskId ?a = None"
      by (simp add: a)
    show ?thesis
      using ui_step_StatusFetch_idle [OF an] an
      by (simp add: a statusTimer_def truthy_def)
  qed
  show ?thesis
    using tick answer nonempty
    by (simp add: botMessage_def split: option.split)
qed

theorem completed_status_finishes_task_witness:
  "truthy (currentTaskId (ui_step clk0 StatusFetch helloSent))
   \<and> statusPending (ui_step clk0 StatusFetch helloSent) = [True]
   \<and> messages (ui_step clk0 (StatusTick (Json \<lparr>status = ascii ''completed'', response = Some (ascii ''done'')\<rparr>))
        (ui_step clk0 StatusFetch helloSent)) =
       messages helloSent @
         [\<lparr>content = ascii ''done'', sender = Bot, timestamp = clk0 0, step = None,
          isStepMessage = False, isQuestion = False, isResponse = False\<rparr>]
   \<and> statusTimer (ui_step clk0 (StatusTick (Json \<lparr>status = ascii ''completed'', response = Some (ascii ''done'')\<rparr>))
        (ui_step clk0 StatusFetch helloSent)) = None
   \<and> messages (ui_step clk0 (StatusAnswer 0 (Json \<lparr>status = ascii ''completed'', response = Some (ascii ''done'')\<rparr>))
        (ui_step clk0 StatusFetch helloSent)) =
       messages helloSent @
         [\<lparr>content = ascii ''done'', sender = Bot, timestamp = clk0 0, step = None,
          isStepMessage = False, isQuestion = False, isResponse = False\<rparr>]
   \<and> currentTaskId (ui_step clk0 (StatusAnswer 0 (Json \<lparr>status = ascii ''completed'', response = Some (ascii ''done'')\<rparr>))
        (ui_step clk0 StatusFetch helloSent)) = None
   \<and> network (ui_step clk0 StatusFetch (ui_step clk0 (StatusAnswer 0 (Json \<lparr>status = ascii ''completed'', response = Some (ascii ''done'')\<rparr>))
        (ui_step clk0 StatusFetch helloSent))) =
       [PostSend (ascii ''hello''), GetStatus (Some (ascii ''t1''))]"
  using completed_status_finishes_task
    [of "ui_step clk0 StatusFetch helloSent"
        "\<lparr>status = ascii ''completed'', response = Some (ascii ''done'')\<rparr>"
        clk0 clk0 Rejected 0]
  by (simp add: ui_step.simps statusTimer_def pollStatus_def pollStatus_begin_def
      pollStatus_end_def pollStatus_try_def Let_def handleStopLoading_def helloSent_eq
      truthy_def botMessage_def ascii_def)

text \<open>
  The claim as stated fails in two ways. For a response field that is present and
  empty, the test \<^verbatim>\<open>if (data.response)\<close> is false and nothing is appended. And when
  two ticks have each left a status fetch in flight, both answered
  \<^verbatim>\<open>completed\<close> with the response \<^verbatim>\<open>done\<close>, the first answer clears the
  interval and the second, which nothing holds back, appends \<^verbatim>\<open>done\<close> again.
\<close>

theorem completed_status_counterexample:
  "response \<lparr>status = ascii ''completed'', response = Some []\<rparr> = Some []
   \<and> messages (ui_step clk0
        (StatusTick (Json \<lparr>status = ascii ''completed'', response = Some []\<rparr>)) helloSent)
       = messages helloSent
   \<and> statusTimer (ui_step clk0
        (StatusAnswer 0 (Json \<lparr>status = ascii ''completed'', response = Some (ascii ''done'')\<rparr>))
        (ui_step clk0 StatusFetch (ui_step clk0 StatusFetch helloSent))) = None
   \<and> messages (ui_step clk0
        (StatusAnswer 0 (Json \<lparr>status = ascii ''completed'', response = Some (ascii ''done'')\<rparr>))
        (ui_step clk0
          (StatusAnswer 0 (Json \<lparr>status = ascii ''completed'', response = Some (ascii ''done'')\<rparr>))
          (ui_step clk0 StatusFetch (ui_step clk0 StatusFetch helloSent)))) =
       messages helloSent @
         [\<lparr>content = ascii ''done'', sender = Bot, timestamp = clk0 0, step = None,
                       isStepMessage = False, isQuestion = False, isResponse = False\<rparr>,
          \<lparr>content = ascii ''done'', sender = Bot, timestamp = clk0 0, step = None,
                       isStepMessage = False, isQuestion = False, isResponse = False\<rparr>]"
  by (simp add: ui_step.simps statusTimer_def pollStatus_def pollStatus_begin_def
      pollStatus_end_def pollStatus_try_def Let_def handleStopLoading_def helloSent_eq
      truthy_def botMessage_def ascii_def)

section \<open>Sending and responding\<close>

lemma startsWith_append: "startsWith (p @ t) p"
  by (induction p) simp_all

lemma replace_prefix: "replace (p @ t) p [] = t"
proof (cases "p @ t")
  case Nil
  then show ?thesis by simp
next
  case (Cons c cs)
  have "startsWith (c # cs) p"
    using startsWith_append [of p t] by (simp add: Cons)
  moreover have "drop (length p) (c # cs) = t"
    using Cons [symmetric] by simp
  ultimately show ?thesis
    by (simp add: Cons)
qed

lemma user_response_kind:
  assumes "startsWith m (ascii ''[USER_RESPONSE]'')"
  shows "shouldShowLog m" and "\<not> startsWith m (ascii ''[ASK_HUMAN]'')"
  using assms
  by (cases m; cases "tl m"; simp add: shouldShowLog_def taskStartPrefix_def ascii_def)+

lemma logCallback_user_response:
  assumes "startsWith (message log) (ascii ''[USER_RESPONSE]'')"
  shows "logCallback idle clk run log =
     appendMessage idle clk
       (\<lambda>t v. (botMessage (replace (message log) (ascii ''[USER_RESPONSE] '') []) t)
                 \<lparr>sender := User, isResponse := True\<rparr>) run"
  using user_response_kind [OF assms] assms by (simp add: logCallback_def Let_def)

lemma handleSendMessage_respond:
  assumes "isAwaitingHuman s" and "truthy (currentTaskId s)" and "trim (inputValue s) \<noteq> []"
    and "r \<noteq> Rejected"
  shows "handleSendMessage clk r s =
     s\<lparr>network := network s @ [PostHumanResponse (currentTaskId s) (inputValue s)],
       inputValue := [], isAwaitingHuman := False, isLoading := True,
       logs := [], lastIndex := 0\<rparr>"
  using assms
  by (cases r) (simp_all add: handleSendMessage_def Let_def handleStartLoading_def resetLogs_def)


lemma processLogs_messages:
  "messages (processLogs clk s) =
     messages s @ appended (forEachLog (chatIdle s) clk initialRun (logs s))"
  by (simp add: processLogs_def Let_def initialRun_def appended_def settle_def)

lemma ui_step_LogTick_new:
  assumes "logTimer s \<noteq> None" and "hasNewLogs data"
  shows "ui_step clk (LogTick (Json data)) s =
     processLogs clk
       (s\<lparr>network := network s @ [GetLogs (currentTaskId s) (lastIndex s)],
          logs := logs s @ receivedLogs data, lastIndex := next_index data\<rparr>)"
proof -
  have "receivedLogs data \<noteq> []"
    using assms(2) by (simp add: hasNewLogs_def receivedLogs_def split: option.splits)
  then show ?thesis
    using assms by (auto simp add: ui_step.simps pollLogs_Json_cases)
qed

lemma user_response_marker: "startsWith (ascii ''[USER_RESPONSE] '' @ txt) (ascii ''[USER_RESPONSE]'')"
  by (simp add: ascii_def)

text \<open>
  Claim C9. When the interface awaits an answer for the active task and the input is
  not blank, the send handler posts \<^verbatim>\<open>{task_id, response}\<close> with the current task
  id and the text of the input; when that fetch does not reject, the chat messages are
  exactly as before. An entry that begins with \<^verbatim>\<open>[USER_RESPONSE]\<close> makes the
  reconstructor append exactly one message, from the user and flagged
  \<^verbatim>\<open>isResponse\<close>, whose content is the entry's text without its first
  \<^verbatim>\<open>[USER_RESPONSE] \<close>. So when the next poll delivers the marker followed by the
  text that was sent, the chat ends with one more message: from the user, flagged
  \<^verbatim>\<open>isResponse\<close>, with that text as its content.
\<close>

theorem human_response_comes_back_through_the_log:
  assumes "isAwaitingHuman s" and "truthy (currentTaskId s)" and "trim (inputValue s) \<noteq> []"
    and "r \<noteq> Rejected"
    and "startsWith (message log) (ascii ''[USER_RESPONSE]'')"
  shows "messages (ui_step clk (Send r) s) = messages s
       \<and> network (ui_step clk (Send r) s) =
           network s @ [PostHumanResponse (currentTaskId s) (inputValue s)]
       \<and> settle v (logCallback idle clk run log) =
           settle v run @
             [\<lparr>content = replace (message log) (ascii ''[USER_RESPONSE] '') [], sender = User, timestamp = clk (length (updaters run)), step = None,
               isStepMessage = False, isQuestion = False, isResponse = True\<rparr>]
       \<and> messages (ui_step clk'
            (LogTick (Json \<lparr>resp_logs =
                 Some [\<lparr>level = lv, message = ascii ''[USER_RESPONSE] '' @ inputValue s\<rparr>],
               next_index = n\<rparr>))
            (ui_step clk (Send r) s)) =
           messages s @
             [\<lparr>content = inputValue s, sender = User, timestamp = clk' 0, step = None,
               isStepMessage = False, isQuestion = False, isResponse = True\<rparr>]"
proof -
  let ?s1 = "ui_step clk (Send r) s"
  let ?e = "\<lparr>level = lv, message = ascii ''[USER_RESPONSE] '' @ inputValue s\<rparr>"
  let ?d = "\<lparr>resp_logs = Some [?e], next_index = n\<rparr>"
  have s1: "?s1 =
     s\<lparr>network := network s @ [PostHumanResponse (currentTaskId s) (inputValue s)],
       inputValue := [], isAwaitingHuman := False, isLoading := True,
       logs := [], lastIndex := 0\<rparr>"
    using handleSendMessage_respond [OF assms(1-4)] by (simp add: ui_step.simps)
  have timer: "logTimer ?s1 \<noteq> None"
    using assms(2) by (simp add: s1 logTimer_def)
  have carries: "hasNewLogs ?d" and rcv: "receivedLogs ?d = [?e]"
    by (simp_all add: hasNewLogs_def receivedLogs_def)
  have cb: "appended (logCallback (chatIdle s) clk' initialRun ?e) =
      [\<lparr>content = inputValue s, sender = User, timestamp = clk' 0, step = None,
               isStepMessage = False, isQuestion = False, isResponse = True\<rparr>]"
    using logCallback_user_response [of ?e "chatIdle s" clk' initialRun] user_response_marker
    by (simp add: replace_prefix appended_def botMessage_def) (simp add: settle_def initialRun_def)
  have echoed: "messages (ui_step clk' (LogTick (Json ?d)) ?s1) =
      messages s @
        [\<lparr>content = inputValue s, sender = User, timestamp = clk' 0, step = None,
               isStepMessage = False, isQuestion = False, isResponse = True\<rparr>]"
    unfolding ui_step_LogTick_new [OF timer carries] processLogs_messages
    by (simp add: rcv s1 cb)
  have one: "settle v (logCallback idle clk run log) =
           settle v run @
             [\<lparr>content = replace (message log) (ascii ''[USER_RESPONSE] '') [], sender = User, timestamp = clk (length (updaters run)), step = None,
               isStepMessage = False, isQuestion = False, isResponse = True\<rparr>]"
    by (simp add: logCallback_user_response [OF assms(5)] botMessage_def)
  show ?thesis
    using echoed one by (simp add: s1)
qed

lemma blue_not_blank: "trim (ascii ''blue'') \<noteq> []"
  by (simp add: trim_def ascii_def isWhiteSpace_def)

lemma awaitingAnswer_eq:
  "awaitingAnswer =
     helloSent\<lparr>network := [PostSend (ascii ''hello''), GetStatus (Some (ascii ''t1''))],
               isAwaitingHuman := True, isLoading := False, inputValue := ascii ''blue''\<rparr>"
  by (simp add: awaitingAnswer_def ui_step.simps statusTimer_def truthy_def
      pollStatus_awaiting_human helloSent_eq)
    (simp add: ascii_def)

theorem human_response_comes_back_through_the_log_witness:
  "isAwaitingHuman awaitingAnswer \<and> truthy (currentTaskId awaitingAnswer)
   \<and> messages (ui_step clk0 (Send (Json \<lparr>task_id = None\<rparr>)) awaitingAnswer) =
       messages helloSent
   \<and> network (ui_step clk0 (Send (Json \<lparr>task_id = None\<rparr>)) awaitingAnswer) =
       [PostSend (ascii ''hello''), GetStatus (Some (ascii ''t1'')),
        PostHumanResponse (Some (ascii ''t1'')) (ascii ''blue'')]
   \<and> messages (ui_step clk0
        (LogTick (Json \<lparr>resp_logs =
             Some [\<lparr>level = None, message = ascii ''[USER_RESPONSE] '' @ ascii ''blue''\<rparr>],
           next_index = 1\<rparr>))
        (ui_step clk0 (Send (Json \<lparr>task_id = None\<rparr>)) awaitingAnswer)) =
       messages helloSent @
         [\<lparr>content = ascii ''blue'', sender = User, timestamp = clk0 0, step = None,
           isStepMessage = False, isQuestion = False, isResponse = True\<rparr>]"
  using human_response_comes_back_through_the_log
    [of awaitingAnswer "Json \<lparr>task_id = None\<rparr>"
        "\<lparr>level = None, message = ascii ''[USER_RESPONSE] blue''\<rparr>" clk0 None True initialRun
        clk0 None 1]
    blue_not_blank
  by (simp add: awaitingAnswer_eq helloSent_eq truthy_def) (simp add: ascii_def)

section \<open>The chat messages over all events\<close>
















section \<open>Running the reconstruction again\<close>

lemma sameCalls_appendMessage:
  assumes "sameCalls tags run run'" and "tags \<longrightarrow> idle = idle'"
    and "\<forall>t t' w w'. (tags \<longrightarrow> w = w') \<longrightarrow> erase tags (lit t w) = erase tags (lit t' w')"
  shows "sameCalls tags (appendMessage idle clk lit run) (appendMessage idle' clk' lit run')"
proof -
  have empty: "updaters run = [] \<longleftrightarrow> updaters run' = []"
    using assms(1) by (metis length_0_conv sameCalls_def)
  have cur: "currentStep run = currentStep run'"
    using assms(1) by (simp add: sameCalls_def)
  have last: "erase tags (lit (clk (length (updaters run)))
                  (if idle \<and> updaters run = [] then currentStep run else v)) =
              erase tags (lit (clk' (length (updaters run')))
                  (if idle' \<and> updaters run' = [] then currentStep run' else v))" for v
    using assms(2,3) empty cur by auto
  show ?thesis
    using assms(1) last by (simp add: sameCalls_def)
qed

lemma sameCalls_replay:
  assumes "sameCalls tags run run'" and "tags \<longrightarrow> idle = idle'"
  shows "sameCalls tags
           (foldl (\<lambda>r msg. appendMessage idle clk (\<lambda>t v. botMessage msg t) r) run xs)
           (foldl (\<lambda>r msg. appendMessage idle' clk' (\<lambda>t v. botMessage msg t) r) run' xs)"
  using assms(1)
proof (induction xs arbitrary: run run')
  case Nil
  then show ?case by simp
next
  case (Cons x xs)
  show ?case
    unfolding foldl_Cons
    by (rule Cons.IH, rule sameCalls_appendMessage [OF Cons.prems assms(2)])
      (simp add: erase_def untimed_def untagged_def botMessage_def)
qed

lemma sameCalls_replayStep:
  assumes "sameCalls tags run run'" and "tags \<longrightarrow> idle = idle'"
  shows "sameCalls tags (replayStep idle clk run) (replayStep idle' clk' run')"
proof -
  have "currentStepMessages run = currentStepMessages run'"
    using assms(1) by (simp add: sameCalls_def)
  then show ?thesis
    unfolding replayStep_def using sameCalls_replay [OF assms] by simp
qed

lemma sameCalls_update:
  assumes "sameCalls tags run run'"
  shows "sameCalls tags (run\<lparr>currentStep := c, currentStepMessages := b\<rparr>)
           (run'\<lparr>currentStep := c, currentStepMessages := b\<rparr>)"
    and "sameCalls tags (run\<lparr>questionSet := q\<rparr>) (run'\<lparr>questionSet := q\<rparr>)"
    and "sameCalls tags (run\<lparr>currentStepMessages := b\<rparr>)
           (run'\<lparr>currentStepMessages := b\<rparr>)"
  using assms by (simp_all add: sameCalls_def)

lemma sameCalls_logCallback:
  assumes "sameCalls tags run run'" and "tags \<longrightarrow> idle = idle'"
  shows "sameCalls tags (logCallback idle clk run l) (logCallback idle' clk' run' l)"
proof -
  have loc: "currentStepMessages run = currentStepMessages run'"
    "currentStep run = currentStep run'"
    using assms(1) by (simp_all add: sameCalls_def)
  have lit: "\<forall>t t' w w'. (tags \<longrightarrow> w = w') \<longrightarrow>
       erase tags (botMessage c t) = erase tags (botMessage c t')"
    "\<forall>t t' w w'. (tags \<longrightarrow> w = w') \<longrightarrow>
       erase tags ((botMessage c t)\<lparr>isQuestion := True\<rparr>) =
       erase tags ((botMessage c t')\<lparr>isQuestion := True\<rparr>)"
    "\<forall>t t' w w'. (tags \<longrightarrow> w = w') \<longrightarrow>
       erase tags ((botMessage c t)\<lparr>sender := User, isResponse := True\<rparr>) =
       erase tags ((botMessage c t')\<lparr>sender := User, isResponse := True\<rparr>)"
    "\<forall>t t' w w'. (tags \<longrightarrow> w = w') \<longrightarrow>
       erase tags ((botMessage c t)\<lparr>step := Some w, isStepMessage := True\<rparr>) =
       erase tags ((botMessage c t')\<lparr>step := Some w', isStepMessage := True\<rparr>)"
    "\<forall>t t' w w'. (tags \<longrightarrow> w = w') \<longrightarrow>
       erase tags ((botMessage c t)\<lparr>step := Some w\<rparr>) =
       erase tags ((botMessage c t')\<lparr>step := Some w'\<rparr>)" for c
    by (simp_all add: erase_def untimed_def untagged_def botMessage_def)
  note app = sameCalls_appendMessage [OF _ assms(2)]
  show ?thesis
  proof (cases "shouldShowLog (message l)")
    case False
    then show ?thesis using assms(1) by (simp add: logCallback_def)
  next
    case shown: True
    show ?thesis
    proof (cases "startsWith (message l) (ascii ''[ASK_HUMAN]'')")
      case True
      then show ?thesis
        using shown
        by (simp add: logCallback_def Let_def)
          (rule app [OF sameCalls_update(2) [OF assms(1)] lit(2)])
    next
      case notq: False
      show ?thesis
      proof (cases "startsWith (message l) (ascii ''[USER_RESPONSE]'')")
        case True
        then show ?thesis
          using shown notq
          by (simp add: logCallback_def Let_def) (rule app [OF assms(1) lit(3)])
      next
        case notr: False
        show ?thesis
        proof (cases "startsWith (message l) (ascii ''Executing step'')")
          case True
          have r1: "sameCalls tags
              (if truthy (currentStep run) \<and> length (currentStepMessages run) > 0
               then replayStep idle clk run else run)
              (if truthy (currentStep run') \<and> length (currentStepMessages run') > 0
               then replayStep idle' clk' run' else run')"
            using assms(1) sameCalls_replayStep [OF assms] by (simp add: loc)
          show ?thesis
            unfolding logCallback_step [OF True]
            by (rule sameCalls_update(1), rule app [OF r1 lit(4)])
        next
          case False
          show ?thesis
          proof (cases "truthy (currentStep run)")
            case True
            then show ?thesis
              using shown notq notr False loc
              by (simp add: logCallback_def Let_def)
                (rule app [OF sameCalls_update(3) [OF assms(1)] lit(5)])
          next
            case nostep: False
            then show ?thesis
              using shown notq notr False loc
              by (simp add: logCallback_def Let_def) (rule app [OF assms(1) lit(1)])
          qed
        qed
      qed
    qed
  qed
qed

lemma sameCalls_forEachLog:
  assumes "sameCalls tags run run'" and "tags \<longrightarrow> idle = idle'"
  shows "sameCalls tags (forEachLog idle clk run ls) (forEachLog idle' clk' run' ls)"
  using assms(1)
proof (induction ls arbitrary: run run')
  case Nil
  then show ?case by simp
next
  case (Cons l ls)
  show ?case
    unfolding forEachLog_Cons
    by (rule Cons.IH) (rule sameCalls_logCallback [OF Cons.prems assms(2)])
qed

lemma sameCalls_refl: "sameCalls tags run run"
  by (simp add: sameCalls_def)

lemma sameCalls_runs:
  "sameCalls True (forEachLog idle clk initialRun ls) (forEachLog idle clk' initialRun ls)"
  "sameCalls False (forEachLog idle clk initialRun ls) (forEachLog idle' clk' initialRun ls)"
  by (rule sameCalls_forEachLog [OF sameCalls_refl], simp)+

lemma same_logs_untimed:
  "map untimed (appended (forEachLog idle clk initialRun ls)) =
     map untimed (appended (forEachLog idle clk' initialRun ls))"
proof -
  have "erase True = untimed"
    by (simp add: erase_def fun_eq_iff)
  then show ?thesis
    using sameCalls_runs(1) [of idle clk ls clk'] by (simp add: sameCalls_def appended_def)
qed

lemma same_logs_untagged:
  "map (\<lambda>m. untagged (untimed m)) (appended (forEachLog idle clk initialRun ls)) =
     map (\<lambda>m. untagged (untimed m)) (appended (forEachLog idle' clk' initialRun ls))"
proof -
  have "erase False = (\<lambda>m. untagged (untimed m))"
    by (simp add: erase_def fun_eq_iff)
  then show ?thesis
    using sameCalls_runs(2) [of idle clk ls idle' clk'] by (simp add: sameCalls_def appended_def)
qed

lemma question_kind:
  assumes "startsWith m (ascii ''[ASK_HUMAN]'')"
  shows "shouldShowLog m"
  using assms by (cases m) (simp_all add: shouldShowLog_def taskStartPrefix_def ascii_def)

lemma logCallback_question:
  "questionSet (logCallback idle clk run l) =
     (if startsWith (message l) (ascii ''[ASK_HUMAN]'')
      then Some (replace (message l) (ascii ''[ASK_HUMAN] '') [])
      else questionSet run)"
  using question_kind [of "message l"] by (simp add: logCallback_def Let_def)

lemma forEachLog_question:
  "questionSet (forEachLog idle clk run ls) =
     (if filter (\<lambda>l. startsWith (message l) (ascii ''[ASK_HUMAN]'')) ls = []
      then questionSet run
      else Some (replace
        (message (last (filter (\<lambda>l. startsWith (message l) (ascii ''[ASK_HUMAN]'')) ls)))
        (ascii ''[ASK_HUMAN] '') []))"
proof (induction ls arbitrary: run)
  case Nil
  show ?case by simp
next
  case (Cons l ls)
  show ?case
    unfolding forEachLog_Cons Cons.IH
    by (simp add: logCallback_question)
qed

lemma processLogs_logs [simp]: "logs (processLogs clk s) = logs s"
  by (simp add: processLogs_def Let_def)

lemma processLogs_question:
  "currentHumanQuestion (processLogs clk s) =
     (if filter (\<lambda>l. startsWith (message l) (ascii ''[ASK_HUMAN]'')) (logs s) = []
      then currentHumanQuestion s
      else replace
        (message (last (filter (\<lambda>l. startsWith (message l) (ascii ''[ASK_HUMAN]'')) (logs s))))
        (ascii ''[ASK_HUMAN] '') [])"
  by (simp add: processLogs_def Let_def forEachLog_question initialRun_def)

lemma processLogs_frame:
  "processLogs clk s =
     s\<lparr>messages := messages (processLogs clk s),
       currentHumanQuestion := currentHumanQuestion (processLogs clk s)\<rparr>"
  by (simp add: processLogs_def Let_def)

text \<open>
  Claim C1, as amended. One run of the log processing appends, to the messages that
  are there, the messages of a fold over the whole log list, and sets the pending
  question to the text of the last entry of the list that begins with
  \<^verbatim>\<open>[ASK_HUMAN]\<close>, without its first \<^verbatim>\<open>[ASK_HUMAN] \<close>, if there is such an
  entry; it changes no other cell of the state. What it appends is a function of the
  log list up to the time stamps: two runs over the same list, reading different
  clocks, append the same messages but for the time stamps, and, when React runs the
  first updater of one run at the call and that of the other later, but for the time
  stamps and step tags. The run is not idempotent on the chat: a second run over the
  same list appends its messages after those of the first.
\<close>

theorem reconstruction_is_deterministic_and_appends:
  "messages (processLogs clk s) =
     messages s @ appended (forEachLog (chatIdle s) clk initialRun (logs s))
   \<and> map untimed (appended (forEachLog idle clk initialRun ls)) =
       map untimed (appended (forEachLog idle clk' initialRun ls))
   \<and> map (\<lambda>m. untagged (untimed m)) (appended (forEachLog idle clk initialRun ls)) =
       map (\<lambda>m. untagged (untimed m)) (appended (forEachLog idle' clk' initialRun ls))
   \<and> messages (processLogs clk' ((processLogs clk s)\<lparr>chatIdle := idle'\<rparr>)) =
       messages s @ appended (forEachLog (chatIdle s) clk initialRun (logs s))
         @ appended (forEachLog idle' clk' initialRun (logs s))
   \<and> currentHumanQuestion (processLogs clk s) =
       (if filter (\<lambda>l. startsWith (message l) (ascii ''[ASK_HUMAN]'')) (logs s) = []
        then currentHumanQuestion s
        else replace
          (message (last (filter (\<lambda>l. startsWith (message l) (ascii ''[ASK_HUMAN]'')) (logs s))))
          (ascii ''[ASK_HUMAN] '') [])
   \<and> processLogs clk s =
       s\<lparr>messages := messages (processLogs clk s),
         currentHumanQuestion := currentHumanQuestion (processLogs clk s)\<rparr>"
proof -
  have twice: "messages (processLogs clk' ((processLogs clk s)\<lparr>chatIdle := idle'\<rparr>)) =
       messages s @ appended (forEachLog (chatIdle s) clk initialRun (logs s))
         @ appended (forEachLog idle' clk' initialRun (logs s))"
    by (simp add: processLogs_messages)
  show ?thesis
    using twice processLogs_frame [of clk s] processLogs_question [of clk s]
      same_logs_untimed [of idle clk ls clk']
      same_logs_untagged [of idle clk ls idle' clk']
    by (simp add: processLogs_messages)
qed

theorem reconstruction_is_deterministic_and_appends_witness:
  "messages (ui_step clk0
      (LogTick (Json \<lparr>resp_logs = Some
          [\<lparr>level = Some (ascii ''INFO''), message = ascii ''Executing step 1''\<rparr>,
           \<lparr>level = Some (ascii ''INFO''), message = ascii ''[ASK_HUMAN] colour?''\<rparr>,
           \<lparr>level = Some (ascii ''INFO''), message = ascii ''opening page''\<rparr>],
         next_index = 3\<rparr>)) helloSent) =
     messages helloSent @
        [\<lparr>content = ascii ''Executing step 1'', sender = Bot, timestamp = clk0 0,
           step = Some None, isStepMessage = True, isQuestion = False, isResponse = False\<rparr>,
         \<lparr>content = ascii ''colour?'', sender = Bot, timestamp = clk0 1,
           step = None, isStepMessage = False, isQuestion = True, isResponse = False\<rparr>,
         \<lparr>content = ascii ''opening page'', sender = Bot, timestamp = clk0 2,
           step = Some (Some (ascii ''Executing step 1'')), isStepMessage = False, isQuestion = False, isResponse = False\<rparr>]
   \<and> currentHumanQuestion (ui_step clk0
      (LogTick (Json \<lparr>resp_logs = Some
          [\<lparr>level = Some (ascii ''INFO''), message = ascii ''Executing step 1''\<rparr>,
           \<lparr>level = Some (ascii ''INFO''), message = ascii ''[ASK_HUMAN] colour?''\<rparr>,
           \<lparr>level = Some (ascii ''INFO''), message = ascii ''opening page''\<rparr>],
         next_index = 3\<rparr>)) helloSent) = ascii ''colour?''
   \<and> appended (forEachLog False clk1 initialRun
          [\<lparr>level = Some (ascii ''INFO''), message = ascii ''Executing step 1''\<rparr>,
           \<lparr>level = Some (ascii ''INFO''), message = ascii ''[ASK_HUMAN] colour?''\<rparr>,
           \<lparr>level = Some (ascii ''INFO''), message = ascii ''opening page''\<rparr>]) =
        [\<lparr>content = ascii ''Executing step 1'', sender = Bot, timestamp = clk1 0,
           step = Some (Some (ascii ''Executing step 1'')), isStepMessage = True, isQuestion = False, isResponse = False\<rparr>,
         \<lparr>content = ascii ''colour?'', sender = Bot, timestamp = clk1 1,
           step = None, isStepMessage = False, isQuestion = True, isResponse = False\<rparr>,
         \<lparr>content = ascii ''opening page'', sender = Bot, timestamp = clk1 2,
           step = Some (Some (ascii ''Executing step 1'')), isStepMessage = False, isQuestion = False, isResponse = False\<rparr>]"
  using reconstruction_is_deterministic_and_appends
    [of clk0 "helloSent\<lparr>network := network helloSent @ [GetLogs (Some (ascii ''t1'')) 0],
          logs := [\<lparr>level = Some (ascii ''INFO''), message = ascii ''Executing step 1''\<rparr>,
           \<lparr>level = Some (ascii ''INFO''), message = ascii ''[ASK_HUMAN] colour?''\<rparr>,
           \<lparr>level = Some (ascii ''INFO''), message = ascii ''opening page''\<rparr>],
          lastIndex := 3\<rparr>" True
        "[\<lparr>level = Some (ascii ''INFO''), message = ascii ''Executing step 1''\<rparr>,
           \<lparr>level = Some (ascii ''INFO''), message = ascii ''[ASK_HUMAN] colour?''\<rparr>,
           \<lparr>level = Some (ascii ''INFO''), message = ascii ''opening page''\<rparr>]"
        clk1 False]
  by (simp add: ui_step.simps logTimer_def pollLogs_Json Let_def helloSent_eq truthy_def
      processLogs_def)
    (simp add: run_simps forEachLog_def clk0_def clk1_def)

text \<open>
  The claim as stated fails as soon as one entry is shown. After the first poll of the
  session has brought one step marker, and the processing has run once, a second run
  over the same list appends the step header a second time; and when a second poll
  brings one more entry, the run over the two entries repeats the header of the first.
  A run also has a side effect beside the chat messages: on a question entry it sets
  the pending question.
\<close>

theorem rerun_appends_again_counterexample:
  "logs (ui_step clk0 (LogTick (Json \<lparr>resp_logs = Some [\<lparr>level = Some (ascii ''INFO''), message = ascii ''Executing step 1''\<rparr>], next_index = 1\<rparr>)) helloSent) =
     [\<lparr>level = Some (ascii ''INFO''), message = ascii ''Executing step 1''\<rparr>]
   \<and> messages (processLogs clk0 (ui_step clk0 (LogTick (Json \<lparr>resp_logs = Some [\<lparr>level = Some (ascii ''INFO''), message = ascii ''Executing step 1''\<rparr>], next_index = 1\<rparr>)) helloSent)) \<noteq>
     messages (ui_step clk0 (LogTick (Json \<lparr>resp_logs = Some [\<lparr>level = Some (ascii ''INFO''), message = ascii ''Executing step 1''\<rparr>], next_index = 1\<rparr>)) helloSent)
   \<and> map content (messages (ui_step clk0 (LogTick (Json \<lparr>resp_logs = Some [\<lparr>level = Some (ascii ''INFO''), message = ascii ''opening page''\<rparr>], next_index = 2\<rparr>))
        (ui_step clk0 (LogTick (Json \<lparr>resp_logs = Some [\<lparr>level = Some (ascii ''INFO''), message = ascii ''Executing step 1''\<rparr>], next_index = 1\<rparr>)) helloSent))) =
     [greetingText, ascii ''hello'', thinkingText, ascii ''Executing step 1'',
      ascii ''Executing step 1'', ascii ''opening page'']
   \<and> currentHumanQuestion helloSent = []
   \<and> currentHumanQuestion (ui_step clk0 (LogTick (Json \<lparr>resp_logs = Some [\<lparr>level = Some (ascii ''INFO''), message = ascii ''[ASK_HUMAN] colour?''\<rparr>], next_index = 1\<rparr>)) helloSent) = ascii ''colour?''"
  by (simp add: ui_step.simps logTimer_def pollLogs_Json Let_def helloSent_eq truthy_def
      processLogs_def)
    (simp add: run_simps forEachLog_def)

end
